theory Spec2Isabelle
  imports Complex_Main
begin

section \<open>Website uptime monitor: the check, diff, notify, persist routine\<close>

text \<open>
  The repository holds two variants of one routine: \<^verbatim>\<open>website_monitor.py\<close> (constants in the
  module) and \<^verbatim>\<open>website_monitor_config.py\<close> (constants read from \<^verbatim>\<open>config.json\<close>, a User-Agent
  header on the check, and a summary message after the change notifications). Their functions
  \<^verbatim>\<open>load_state\<close>, \<^verbatim>\<open>save_state\<close>, \<^verbatim>\<open>check_website\<close>, \<^verbatim>\<open>send_telegram_message\<close>,
  \<^verbatim>\<open>format_status_message\<close> and the loop of \<^verbatim>\<open>main\<close> are the same text. The embedding below
  follows that text; the variant is a parameter where the two differ.
\<close>

subsection \<open>Python strings and integers\<close>

text \<open>
  A Python \<^verbatim>\<open>str\<close> is a sequence of code points, and slicing and \<^verbatim>\<open>in\<close> count code points.
  A HOL \<^typ>\<open>char\<close> is a byte, so a Python string is a list of code points here;
  \<open>lit\<close> embeds an ASCII literal of the source.
\<close>

type_synonym pystr = "nat list"

definition lit :: "string \<Rightarrow> pystr" where
  "lit s = map of_char s"

text \<open>\<^verbatim>\<open>str(n)\<close> for an integer: decimal digits, a minus sign when negative.\<close>

fun str_nat :: "nat \<Rightarrow> pystr" where
  "str_nat n = (if n < 10 then [48 + n] else str_nat (n div 10) @ [48 + n mod 10])"

declare str_nat.simps [simp del]

definition str_int :: "int \<Rightarrow> pystr" where
  "str_int i = (if i < 0 then 45 # str_nat (nat (- i)) else str_nat (nat i))"

text \<open>\<^verbatim>\<open>sub in s\<close>: \<open>sub\<close> occurs in \<open>s\<close> as a contiguous run.\<close>

fun starts_with :: "pystr \<Rightarrow> pystr \<Rightarrow> bool" where
  "starts_with s [] = True"
| "starts_with [] (c # sub) = False"
| "starts_with (d # s) (c # sub) = (d = c \<and> starts_with s sub)"

fun contains :: "pystr \<Rightarrow> pystr \<Rightarrow> bool" where
  "contains [] sub = starts_with [] sub"
| "contains (d # s) sub = (starts_with (d # s) sub \<or> contains s sub)"

subsection \<open>Exceptions\<close>

text \<open>
  The instances of Python's \<^verbatim>\<open>Exception\<close> that the handlers of the source tell apart, each with
  its text \<^verbatim>\<open>str(e)\<close>. \<open>Timeout\<close> is \<^verbatim>\<open>requests.exceptions.Timeout\<close>; \<open>RequestException\<close> is an
  instance of \<^verbatim>\<open>requests.exceptions.RequestException\<close> that is not a \<^verbatim>\<open>Timeout\<close>;
  \<open>AttributeError\<close> is what a method call on an object without that method raises;
  \<open>OtherException\<close> is any other instance of \<^verbatim>\<open>Exception\<close>. Interrupts delivered from outside
  (\<^verbatim>\<open>KeyboardInterrupt\<close>, \<^verbatim>\<open>SystemExit\<close>) are not instances of \<^verbatim>\<open>Exception\<close> and are not
  outcomes of a call; they are outside this model.
\<close>

datatype exn =
    Timeout pystr
  | RequestException pystr
  | AttributeError pystr
  | OtherException pystr

fun str_exn :: "exn \<Rightarrow> pystr" where
  "str_exn (Timeout m) = m"
| "str_exn (RequestException m) = m"
| "str_exn (AttributeError m) = m"
| "str_exn (OtherException m) = m"

subsection \<open>The Checker: \<^verbatim>\<open>check_website\<close>\<close>

text \<open>
  \<^verbatim>\<open>requests.get(url, timeout=TIMEOUT_SECONDS, allow_redirects=True)\<close> either returns a response,
  of which the code reads \<^verbatim>\<open>status_code\<close> only, or raises. Its outcome is \<open>Inr code\<close> or
  \<open>Inl e\<close>. The result of \<open>check_website\<close> is \<open>Inr (is_up, error_message, status_code)\<close> when the
  function returns and \<open>Inl e\<close> when it raises \<open>e\<close>.
\<close>

type_synonym check_result = "bool \<times> pystr \<times> int option"

definition check_website :: "int \<Rightarrow> (exn + int) \<Rightarrow> exn + check_result" where
  "check_website TIMEOUT_SECONDS response =
     (case response of
        Inr status_code \<Rightarrow>
          (if status_code = 200 then Inr (True, lit ''OK'', Some status_code)
           else Inr (False, lit ''HTTP '' @ str_int status_code, Some status_code))
      | Inl (Timeout m) \<Rightarrow>
          Inr (False, lit ''Timeout after '' @ str_int TIMEOUT_SECONDS @ lit ''s'', None)
      | Inl (RequestException m) \<Rightarrow>
          (let error_msg = m in
           if contains error_msg (lit ''ConnectionError'') then Inr (False, lit ''Connection failed'', None)
           else if contains error_msg (lit ''SSLError'') then Inr (False, lit ''SSL error'', None)
           else Inr (False, lit ''Error: '' @ take 100 error_msg, None))
      | Inl e \<Rightarrow>
          Inr (False, lit ''Unexpected error: '' @ take 100 (str_exn e), None))"

subsection \<open>Python values, dictionaries and the state file\<close>

text \<open>
  What \<^verbatim>\<open>json.load\<close> can return: \<^verbatim>\<open>None\<close>, a \<^verbatim>\<open>bool\<close>, an \<^verbatim>\<open>int\<close>, a \<^verbatim>\<open>float\<close> (by its exact
  value when finite; \<open>PNonFinite\<close> for \<^verbatim>\<open>nan\<close> and the infinities), a \<^verbatim>\<open>str\<close>, a \<^verbatim>\<open>list\<close>, or a
  \<^verbatim>\<open>dict\<close> with \<^verbatim>\<open>str\<close> keys. A \<^verbatim>\<open>dict\<close> keeps insertion order: it is an association list
  whose keys are pairwise different.
\<close>

datatype pyval =
    PNone
  | PBool bool
  | PInt int
  | PFloat rat
  | PNonFinite
  | PStr pystr
  | PList "pyval list"
  | PDict "(pystr \<times> pyval) list"

text \<open>\<^verbatim>\<open>d[k] = v\<close>: an existing key keeps its place, a new key goes last.\<close>

fun dict_set :: "('k \<times> 'v) list \<Rightarrow> 'k \<Rightarrow> 'v \<Rightarrow> ('k \<times> 'v) list" where
  "dict_set [] k v = [(k, v)]"
| "dict_set ((k', v') # d) k v =
     (if k' = k then (k', v) # d else (k', v') # dict_set d k v)"

fun type_name :: "pyval \<Rightarrow> pystr" where
  "type_name PNone = lit ''NoneType''"
| "type_name (PBool b) = lit ''bool''"
| "type_name (PInt i) = lit ''int''"
| "type_name (PFloat q) = lit ''float''"
| "type_name PNonFinite = lit ''float''"
| "type_name (PStr s) = lit ''str''"
| "type_name (PList vs) = lit ''list''"
| "type_name (PDict d) = lit ''dict''"

text \<open>
  \<^verbatim>\<open>obj.get(key, default)\<close>: the lookup with a default on a \<^verbatim>\<open>dict\<close>; every other value that
  \<^verbatim>\<open>json.load\<close> returns has no method \<^verbatim>\<open>get\<close>, and the call raises \<^verbatim>\<open>AttributeError\<close>.
\<close>

fun py_get :: "pyval \<Rightarrow> pystr \<Rightarrow> pyval \<Rightarrow> exn + pyval" where
  "py_get (PDict d) key dflt = Inr (case map_of d key of None \<Rightarrow> dflt | Some v \<Rightarrow> v)"
| "py_get obj key dflt =
     Inl (AttributeError ([39] @ type_name obj @ [39] @ lit '' object has no attribute ''
                          @ [39] @ lit ''get'' @ [39]))"

text \<open>
  \<^verbatim>\<open>is_up != was_up\<close> for a \<^verbatim>\<open>bool\<close> on the left: Python compares a \<^verbatim>\<open>bool\<close> with a number as
  the number 1 or 0, and finds it unequal to every value of another type.
\<close>

fun py_ne :: "bool \<Rightarrow> pyval \<Rightarrow> bool" where
  "py_ne b (PBool c) = (b \<noteq> c)"
| "py_ne b (PInt i) = (i \<noteq> (if b then 1 else 0))"
| "py_ne b (PFloat q) = (q \<noteq> (if b then 1 else 0))"
| "py_ne b v = True"

text \<open>
  The state file, by what reading it gives: it does not exist; or it exists and \<^verbatim>\<open>open\<close> or
  \<^verbatim>\<open>json.load\<close> raises \<open>e\<close> (no permission, not JSON, cut short); or it holds a JSON document,
  named by the value \<^verbatim>\<open>json.load\<close> returns for it. \<^verbatim>\<open>json.dump\<close> and \<^verbatim>\<open>json.load\<close> are the
  standard library's: a dictionary with \<^verbatim>\<open>str\<close> keys and \<^verbatim>\<open>bool\<close> values is written as the JSON
  object that is read back as that dictionary.
\<close>

datatype stored = Missing | Unreadable exn | Holds pyval

text \<open>
  How this run's \<^verbatim>\<open>open(STATE_FILE, 'w')\<close> and \<^verbatim>\<open>json.dump\<close> end: both succeed; \<^verbatim>\<open>open\<close> raises
  \<open>e\<close> and the file is as before; or \<^verbatim>\<open>json.dump\<close> raises \<open>e\<close> after \<^verbatim>\<open>open\<close> has emptied the file,
  and reading what is left raises \<open>e'\<close>.
\<close>

datatype write_outcome = WriteOk | OpenRaises exn | DumpRaises exn exn

datatype level = INFO | WARNING | ERROR

text \<open>
  Everything outside the process that a run changes: the state file, the lines given to the
  logger, the URLs handed to \<^verbatim>\<open>requests.get\<close>, the texts handed to \<^verbatim>\<open>requests.post\<close> (the
  \<^verbatim>\<open>text\<close> field of the JSON body; the URL, \<^verbatim>\<open>chat_id\<close> and \<^verbatim>\<open>parse_mode\<close> are the same in every
  call), the seconds slept, and the arguments \<open>save_state\<close> was called with.
\<close>

record world =
  state_file :: stored
  log :: "(level \<times> pystr) list"
  gets :: "pystr list"
  posts :: "pystr list"
  slept :: nat
  saved :: "(pystr \<times> bool) list list"

text \<open>
  What the outside answers: the outcome of the \<open>k\<close>-th GET, by the URL it is sent to (a raise,
  or the response's status code; the loop sends one GET for every entry of the list, so a URL
  listed twice is asked twice and may be answered differently), the outcome of the \<open>k\<close>-th
  POST (a raise, or the response's status code and text), the local time
  \<^verbatim>\<open>datetime.now().strftime("%Y-%m-%d %H:%M:%S")\<close> read when \<open>k\<close> messages have been posted, and the
  outcome of writing the state file. Requests are counted from the ones the world records.
\<close>

record env =
  http_get :: "nat \<Rightarrow> pystr \<Rightarrow> exn + int"
  http_post :: "nat \<Rightarrow> exn + int \<times> pystr"
  now :: "nat \<Rightarrow> pystr"
  file_write :: write_outcome

datatype variant = Hardcoded | FromConfig

record config =
  variant :: variant
  WEBSITES :: "pystr list"
  TIMEOUT_SECONDS :: int

definition website_monitor_py :: config where
  "website_monitor_py =
     \<lparr>variant = Hardcoded,
      WEBSITES = [lit ''https://mandarini.wedding'', lit ''https://ori.wedding'',
                  lit ''https://sami.wedding'', lit ''https://vow.legal'',
                  lit ''https://stas.video''],
      TIMEOUT_SECONDS = 30\<rparr>"

definition logger :: "level \<Rightarrow> pystr \<Rightarrow> world \<Rightarrow> world" where
  "logger lvl msg w = w\<lparr>log := log w @ [(lvl, msg)]\<rparr>"

subsection \<open>State Loader and State Saver\<close>

definition load_state :: "world \<Rightarrow> pyval \<times> world" where
  "load_state w =
     (case state_file w of
        Missing \<Rightarrow> (PDict [], w)
      | Unreadable e \<Rightarrow>
          (PDict [], logger ERROR (lit ''Error loading state file: '' @ str_exn e) w)
      | Holds v \<Rightarrow> (v, w))"

definition json_of_state :: "(pystr \<times> bool) list \<Rightarrow> pyval" where
  "json_of_state state = PDict (map (\<lambda>(k, b). (k, PBool b)) state)"

definition save_state :: "env \<Rightarrow> (pystr \<times> bool) list \<Rightarrow> world \<Rightarrow> world" where
  "save_state env state w =
     (let w1 = w\<lparr>saved := saved w @ [state]\<rparr> in
      case file_write env of
        WriteOk \<Rightarrow> w1\<lparr>state_file := Holds (json_of_state state)\<rparr>
      | OpenRaises e \<Rightarrow> logger ERROR (lit ''Error saving state file: '' @ str_exn e) w1
      | DumpRaises e e' \<Rightarrow>
          logger ERROR (lit ''Error saving state file: '' @ str_exn e)
            (w1\<lparr>state_file := Unreadable e'\<rparr>))"

subsection \<open>Notification sink: \<^verbatim>\<open>send_telegram_message\<close>\<close>

definition send_telegram_message :: "env \<Rightarrow> pystr \<Rightarrow> world \<Rightarrow> exn + bool \<times> world" where
  "send_telegram_message env message w =
     (let w1 = w\<lparr>posts := posts w @ [message]\<rparr> in
      case http_post env (length (posts w)) of
        Inr (status_code, text) \<Rightarrow>
          (if status_code = 200
           then Inr (True, logger INFO (lit ''Telegram message sent successfully'') w1)
           else Inr (False,
                  logger ERROR (lit ''Failed to send Telegram message: '' @ str_int status_code
                                @ lit '' - '' @ text) w1))
      | Inl e \<Rightarrow>
          Inr (False, logger ERROR (lit ''Error sending Telegram message: '' @ str_exn e) w1))"

subsection \<open>Message templates\<close>

text \<open>
  The two icons as the files have them: \<^verbatim>\<open>website_monitor_config.py\<close> has U+2705 and U+1F534;
  the text of \<^verbatim>\<open>website_monitor.py\<close> has the code points below in their place.
\<close>

definition emoji_up :: "variant \<Rightarrow> pystr" where
  "emoji_up v = (case v of Hardcoded \<Rightarrow> [0xE2, 0x153, 0x2026] | FromConfig \<Rightarrow> [0x2705])"

definition emoji_down :: "variant \<Rightarrow> pystr" where
  "emoji_down v = (case v of Hardcoded \<Rightarrow> [0xF0, 0x178, 0x201D, 0xB4] | FromConfig \<Rightarrow> [0x1F534])"

definition str_opt_int :: "int option \<Rightarrow> pystr" where
  "str_opt_int c = (case c of None \<Rightarrow> lit ''None'' | Some i \<Rightarrow> str_int i)"

definition format_status_message ::
  "variant \<Rightarrow> pystr \<Rightarrow> pystr \<Rightarrow> bool \<Rightarrow> pystr \<Rightarrow> int option \<Rightarrow> pystr" where
  "format_status_message v timestamp url is_up error_msg status_code =
     (let (emoji, status, details) =
            (if is_up then (emoji_up v, lit ''UP'', lit ''Status code: '' @ str_opt_int status_code)
             else (emoji_down v, lit ''DOWN'', lit ''Error: '' @ error_msg))
      in emoji @ lit '' <b>'' @ url @ lit ''</b>'' @ [10]
         @ lit ''Status: <b>'' @ status @ lit ''</b>'' @ [10]
         @ details @ [10]
         @ lit ''Time: '' @ timestamp)"

definition format_summary_message :: "pystr \<Rightarrow> (pystr \<times> bool) list \<Rightarrow> pystr" where
  "format_summary_message timestamp current_state =
     (let up_sites = map fst (filter snd current_state);
          down_sites = map fst (filter (\<lambda>(website, is_up). \<not> is_up) current_state);
          bullets = (\<lambda>sites. concat (map (\<lambda>site. lit ''  '' @ [0x2022] @ lit '' '' @ site @ [10]) sites))
      in [0x1F4CA] @ lit '' <b>Current Status Summary</b>'' @ [10, 10]
         @ (if up_sites \<noteq> [] then [0x2705] @ lit '' <b>UP:</b>'' @ [10] @ bullets up_sites @ [10] else [])
         @ (if down_sites \<noteq> [] then [0x1F534] @ lit '' <b>DOWN:</b>'' @ [10] @ bullets down_sites @ [10] else [])
         @ lit ''Time: '' @ timestamp)"

subsection \<open>The run: \<^verbatim>\<open>main\<close>\<close>

type_synonym change = "pystr \<times> bool \<times> pystr \<times> int option"

definition up_down :: "bool \<Rightarrow> pystr" where
  "up_down is_up = (if is_up then lit ''UP'' else lit ''DOWN'')"

text \<open>
  The loop \<^verbatim>\<open>for website in WEBSITES\<close>, with the three variables it updates:
  \<^verbatim>\<open>current_state\<close>, \<^verbatim>\<open>status_changed\<close> and the world (the log and the GETs sent). Every pass
  sends its own GET.
\<close>

fun check_loop ::
  "config \<Rightarrow> env \<Rightarrow> pyval \<Rightarrow> pystr list
     \<Rightarrow> (pystr \<times> bool) list \<times> change list \<times> world
     \<Rightarrow> exn + (pystr \<times> bool) list \<times> change list \<times> world" where
  "check_loop cfg env previous_state [] acc = Inr acc"
| "check_loop cfg env previous_state (website # rest) (current_state, status_changed, w) =
     (let w0 = logger INFO (lit ''Checking '' @ website) w;
          response = http_get env (length (gets w0)) website;
          w1 = w0\<lparr>gets := gets w0 @ [website]\<rparr> in
      case check_website (TIMEOUT_SECONDS cfg) response of
        Inl e \<Rightarrow> Inl e
      | Inr (is_up, error_msg, status_code) \<Rightarrow>
          (let current_state' = dict_set current_state website is_up in
           case py_get previous_state website (PBool True) of
             Inl e \<Rightarrow> Inl e
           | Inr was_up \<Rightarrow>
               (let (status_changed', w2) =
                      (if py_ne is_up was_up
                       then (status_changed @ [(website, is_up, error_msg, status_code)],
                             logger WARNING (lit ''Status change detected for '' @ website
                                             @ lit '': '' @ up_down is_up) w1)
                       else (status_changed, w1));
                    w3 = logger INFO (website @ lit '': '' @ up_down is_up @ lit '' - '' @ error_msg) w2
                in check_loop cfg env previous_state rest (current_state', status_changed', w3))))"

text \<open>The loop \<^verbatim>\<open>for website, is_up, error_msg, status_code in status_changed\<close>.\<close>

fun send_loop :: "config \<Rightarrow> env \<Rightarrow> change list \<Rightarrow> world \<Rightarrow> exn + world" where
  "send_loop cfg env [] w = Inr w"
| "send_loop cfg env ((website, is_up, error_msg, status_code) # rest) w =
     (let message = format_status_message (variant cfg) (now env (length (posts w)))
                      website is_up error_msg status_code in
      case send_telegram_message env message w of
        Inl e \<Rightarrow> Inl e
      | Inr (ok, w1) \<Rightarrow> send_loop cfg env rest (w1\<lparr>slept := slept w1 + 1\<rparr>))"

text \<open>
  The block \<^verbatim>\<open>if status_changed:\<close>. In \<^verbatim>\<open>website_monitor_config.py\<close> it ends with the summary
  message.
\<close>

definition notify ::
  "config \<Rightarrow> env \<Rightarrow> (pystr \<times> bool) list \<Rightarrow> change list \<Rightarrow> world \<Rightarrow> exn + world" where
  "notify cfg env current_state status_changed w =
     (if status_changed \<noteq> [] then
        (case send_loop cfg env status_changed w of
           Inl e \<Rightarrow> Inl e
         | Inr w1 \<Rightarrow>
             (case variant cfg of
                Hardcoded \<Rightarrow> Inr w1
              | FromConfig \<Rightarrow>
                  (let summary_message =
                         format_summary_message (now env (length (posts w1))) current_state in
                   case send_telegram_message env summary_message w1 of
                     Inl e \<Rightarrow> Inl e
                   | Inr (ok, w2) \<Rightarrow> Inr w2)))
      else Inr w)"

text \<open>
  \<^verbatim>\<open>main\<close> up to the end of the \<^verbatim>\<open>for website in WEBSITES\<close> loop: the three variables as the
  loop leaves them.
\<close>

definition detect ::
  "config \<Rightarrow> env \<Rightarrow> world \<Rightarrow> exn + (pystr \<times> bool) list \<times> change list \<times> world" where
  "detect cfg env w =
     (let w0 = logger INFO (lit ''Starting website monitoring check'') w;
          (previous_state, w1) = load_state w0 in
      check_loop cfg env previous_state (WEBSITES cfg) ([], [], w1))"

definition main :: "config \<Rightarrow> env \<Rightarrow> world \<Rightarrow> exn + world" where
  "main cfg env w =
     (case detect cfg env w of
        Inl e \<Rightarrow> Inl e
      | Inr (current_state, status_changed, w2) \<Rightarrow>
          (case notify cfg env current_state status_changed w2 of
             Inl e \<Rightarrow> Inl e
           | Inr w3 \<Rightarrow>
               Inr (logger INFO (lit ''Check completed. '' @ str_int (int (length status_changed))
                                 @ lit '' status changes detected.'')
                      (save_state env current_state w3))))"

subsection \<open>Notions used to state the properties\<close>

text \<open>The value is a \<^verbatim>\<open>dict\<close>, as the annotation \<^verbatim>\<open>Dict[str, bool]\<close> of \<open>load_state\<close> says.\<close>

fun is_dict :: "pyval \<Rightarrow> bool" where
  "is_dict (PDict d) = True"
| "is_dict v = False"

text \<open>
  The up/down classification that the \<open>k\<close>-th GET gives when it is sent to \<open>website\<close>: the first
  component of the Checker's result.
\<close>

definition checked_up :: "config \<Rightarrow> env \<Rightarrow> nat \<Rightarrow> pystr \<Rightarrow> bool" where
  "checked_up cfg env k website =
     (case check_website (TIMEOUT_SECONDS cfg) (http_get env k website) of
        Inr (is_up, error_msg, status_code) \<Rightarrow> is_up
      | Inl e \<Rightarrow> False)"

text \<open>
  The per-site messages of a list of change records, one for each record and in its order, the
  first of them formatted when \<open>k\<close> messages have been posted.
\<close>

fun status_messages :: "config \<Rightarrow> env \<Rightarrow> nat \<Rightarrow> change list \<Rightarrow> pystr list" where
  "status_messages cfg env k [] = []"
| "status_messages cfg env k ((website, is_up, error_msg, status_code) # rest) =
     format_status_message (variant cfg) (now env k) website is_up error_msg status_code
       # status_messages cfg env (Suc k) rest"

text \<open>All messages of a run: the per-site ones, then the summary where the variant has it.\<close>

definition notifications ::
  "config \<Rightarrow> env \<Rightarrow> nat \<Rightarrow> (pystr \<times> bool) list \<Rightarrow> change list \<Rightarrow> pystr list" where
  "notifications cfg env k current_state status_changed =
     (if status_changed = [] then []
      else status_messages cfg env k status_changed
           @ (case variant cfg of
                Hardcoded \<Rightarrow> []
              | FromConfig \<Rightarrow>
                  [format_summary_message (now env (k + length status_changed)) current_state]))"

text \<open>
  The change record of the pass of the loop that sends the \<open>k\<close>-th GET to \<open>website\<close>, when
  \<^verbatim>\<open>previous_state\<close> is the dictionary \<open>d\<close>: the record if \<^verbatim>\<open>is_up != was_up\<close>, nothing otherwise.
\<close>

definition change_of ::
  "config \<Rightarrow> env \<Rightarrow> (pystr \<times> pyval) list \<Rightarrow> nat \<Rightarrow> pystr \<Rightarrow> change list" where
  "change_of cfg env d k website =
     (case check_website (TIMEOUT_SECONDS cfg) (http_get env k website) of
        Inr (is_up, error_msg, status_code) \<Rightarrow>
          (if py_ne is_up (case map_of d website of None \<Rightarrow> PBool True | Some v \<Rightarrow> v)
           then [(website, is_up, error_msg, status_code)] else [])
      | Inl e \<Rightarrow> [])"

text \<open>The change records of the passes over \<open>ws\<close>, the first of which sends the \<open>k\<close>-th GET.\<close>

fun changes_from ::
  "config \<Rightarrow> env \<Rightarrow> (pystr \<times> pyval) list \<Rightarrow> nat \<Rightarrow> pystr list \<Rightarrow> change list" where
  "changes_from cfg env d k [] = []"
| "changes_from cfg env d k (u # ws) = change_of cfg env d k u @ changes_from cfg env d (Suc k) ws"

text \<open>
  \<^verbatim>\<open>current_state\<close> after the passes over \<open>ws\<close>, the first of which sends the \<open>k\<close>-th GET: each
  entry assigned its classification, in turn.
\<close>

fun final_state ::
  "config \<Rightarrow> env \<Rightarrow> nat \<Rightarrow> pystr list \<Rightarrow> (pystr \<times> bool) list \<Rightarrow> (pystr \<times> bool) list" where
  "final_state cfg env k [] cur = cur"
| "final_state cfg env k (u # ws) cur =
     final_state cfg env (Suc k) ws (dict_set cur u (checked_up cfg env k u))"

text \<open>Two worlds that differ at most in the log and in the GETs recorded.\<close>

definition same_outside_log :: "world \<Rightarrow> world \<Rightarrow> bool" where
  "same_outside_log w' w \<longleftrightarrow>
     state_file w' = state_file w \<and> posts w' = posts w \<and> slept w' = slept w \<and> saved w' = saved w"

text \<open>The line \<open>send_telegram_message\<close> gives to the logger, by the answer to its POST.\<close>

definition send_log_line :: "exn + int \<times> pystr \<Rightarrow> level \<times> pystr" where
  "send_log_line answer =
     (case answer of
        Inr (status_code, body) \<Rightarrow>
          (if status_code = 200 then (INFO, lit ''Telegram message sent successfully'')
           else (ERROR, lit ''Failed to send Telegram message: '' @ str_int status_code
                        @ lit '' - '' @ body))
      | Inl e \<Rightarrow> (ERROR, lit ''Error sending Telegram message: '' @ str_exn e))"

text \<open>The state file after \<open>save_state\<close>, by the outcome of the write.\<close>

definition file_after :: "env \<Rightarrow> (pystr \<times> bool) list \<Rightarrow> stored \<Rightarrow> stored" where
  "file_after env state old =
     (case file_write env of
        WriteOk \<Rightarrow> Holds (json_of_state state)
      | OpenRaises e \<Rightarrow> old
      | DumpRaises e e' \<Rightarrow> Unreadable e')"

text \<open>Concrete runs, for the examples.\<close>

definition a_test :: pystr where
  "a_test = lit ''https://a.test''"

definition world0 :: world where
  "world0 = \<lparr>state_file = Missing, log = [], gets = [], posts = [], slept = 0, saved = []\<rparr>"

definition world_a_up :: world where
  "world_a_up = world0\<lparr>state_file := Holds (PDict [(a_test, PBool True)])\<rparr>"

definition cfg_a :: config where
  "cfg_a = \<lparr>variant = FromConfig, WEBSITES = [a_test], TIMEOUT_SECONDS = 30\<rparr>"

definition cfg_aa :: config where
  "cfg_aa = \<lparr>variant = FromConfig, WEBSITES = [a_test, a_test], TIMEOUT_SECONDS = 30\<rparr>"

definition time0 :: pystr where
  "time0 = lit ''2026-01-01 00:00:00''"

definition env_500 :: env where
  "env_500 = \<lparr>http_get = (\<lambda>k url. Inr 500), http_post = (\<lambda>k. Inr (200, [])),
              now = (\<lambda>k. time0), file_write = WriteOk\<rparr>"

definition env_500_sink_down :: env where
  "env_500_sink_down = env_500\<lparr>http_post := (\<lambda>k. Inr (502, lit ''Bad Gateway''))\<rparr>"

definition env_500_read_only :: env where
  "env_500_read_only = env_500\<lparr>file_write := OpenRaises (OtherException (lit ''Read-only file system''))\<rparr>"

definition env_204 :: env where
  "env_204 = env_500\<lparr>http_post := (\<lambda>k. Inr (204, []))\<rparr>"

definition message_a_down :: pystr where
  "message_a_down = format_status_message FromConfig time0 a_test False (lit ''HTTP 500'') (Some 500)"

definition summary_a_down :: pystr where
  "summary_a_down = format_summary_message time0 [(a_test, False)]"

definition env_200_then_500 :: env where
  "env_200_then_500 = env_500\<lparr>http_get := (\<lambda>k url. if even k then Inr 200 else Inr 500)\<rparr>"

definition env_500_then_200 :: env where
  "env_500_then_200 = env_500\<lparr>http_get := (\<lambda>k url. if even k then Inr 500 else Inr 200)\<rparr>"

definition world_list :: world where
  "world_list = world0\<lparr>state_file := Holds (PList [])\<rparr>"

definition b_test :: pystr where
  "b_test = lit ''https://b.test''"

definition world_b_down :: world where
  "world_b_down = world0\<lparr>state_file := Holds (PDict [(b_test, PBool False)])\<rparr>"

text \<open>
  Two runs in a row, the second starting in the world the first one left: the change records
  of the second run and the final world.
\<close>

definition run_twice :: "config \<Rightarrow> env \<Rightarrow> env \<Rightarrow> world \<Rightarrow> exn + change list \<times> world" where
  "run_twice cfg env1 env2 w =
     (case main cfg env1 w of
        Inl e \<Rightarrow> Inl e
      | Inr w1 \<Rightarrow>
          (case detect cfg env2 w1 of
             Inl e \<Rightarrow> Inl e
           | Inr (current_state, status_changed, w2) \<Rightarrow>
               (case main cfg env2 w1 of
                  Inl e \<Rightarrow> Inl e
                | Inr w' \<Rightarrow> Inr (status_changed, w'))))"

section \<open>Properties\<close>

subsection \<open>Strings\<close>

lemma starts_with_iff: "starts_with s sub \<longleftrightarrow> (\<exists>suf. s = sub @ suf)"
  by (induction s sub rule: starts_with.induct) auto

text \<open>\<open>contains\<close> is Python's \<^verbatim>\<open>sub in s\<close>: the text splits around an occurrence of \<open>sub\<close>.\<close>

lemma contains_iff: "contains s sub \<longleftrightarrow> (\<exists>pre suf. s = pre @ sub @ suf)"
proof (induction s)
  case Nil
  then show ?case by (cases sub) auto
next
  case (Cons d s)
  show ?case
  proof
    assume "contains (d # s) sub"
    then consider "starts_with (d # s) sub" | "contains s sub" by auto
    then show "\<exists>pre suf. d # s = pre @ sub @ suf"
    proof cases
      case 1
      then obtain suf where "d # s = sub @ suf" using starts_with_iff by blast
      then have "d # s = [] @ sub @ suf" by simp
      then show ?thesis by blast
    next
      case 2
      then obtain pre suf where "s = pre @ sub @ suf" using Cons.IH by blast
      then have "d # s = (d # pre) @ sub @ suf" by simp
      then show ?thesis by blast
    qed
  next
    assume "\<exists>pre suf. d # s = pre @ sub @ suf"
    then obtain pre suf where eq: "d # s = pre @ sub @ suf" by blast
    show "contains (d # s) sub"
    proof (cases pre)
      case Nil
      then have "starts_with (d # s) sub" using eq starts_with_iff by auto
      then show ?thesis by simp
    next
      case (Cons p pre')
      then have "s = pre' @ sub @ suf" using eq by simp
      then have "contains s sub" using Cons.IH by blast
      then show ?thesis by simp
    qed
  qed
qed

lemma str_int_500: "str_int 500 = lit ''500''"
  by (simp add: str_int_def lit_def str_nat.simps)

lemma str_int_30: "str_int 30 = lit ''30''"
  by (simp add: str_int_def lit_def str_nat.simps)

lemma str_int_negative: "str_int (- 7) = lit ''-7''"
  by (simp add: str_int_def lit_def str_nat.simps)

subsection \<open>The loop, the sends and the run, step by step\<close>

lemma logger_fields [simp]:
  "state_file (logger l m w) = state_file w"
  "gets (logger l m w) = gets w"
  "posts (logger l m w) = posts w"
  "slept (logger l m w) = slept w"
  "saved (logger l m w) = saved w"
  "log (logger l m w) = log w @ [(l, m)]"
  by (simp_all add: logger_def)

lemma send_telegram_message_result:
  "\<exists>ok w'. send_telegram_message env message w = Inr (ok, w')
      \<and> (ok \<longleftrightarrow> (\<exists>body. http_post env (length (posts w)) = Inr (200, body)))
      \<and> (\<not> ok \<longrightarrow> (\<exists>m. log w' = log w @ [(ERROR, m)]))
      \<and> log w' = log w @ [send_log_line (http_post env (length (posts w)))]
      \<and> posts w' = posts w @ [message]
      \<and> state_file w' = state_file w \<and> slept w' = slept w \<and> saved w' = saved w
      \<and> gets w' = gets w"
proof (cases "http_post env (length (posts w))")
  case (Inl e)
  then show ?thesis by (auto simp add: send_telegram_message_def send_log_line_def)
next
  case (Inr r)
  obtain status_code body where r: "r = (status_code, body)" by (cases r)
  show ?thesis
  proof (cases "status_code = 200")
    case True
    then show ?thesis using Inr r by (auto simp add: send_telegram_message_def send_log_line_def)
  next
    case False
    then show ?thesis using Inr r by (auto simp add: send_telegram_message_def send_log_line_def)
  qed
qed

lemma map_of_dict_set: "map_of (dict_set d k v) = (map_of d)(k \<mapsto> v)"
  by (induction d k v rule: dict_set.induct) auto

lemma keys_dict_set: "fst ` set (dict_set d k v) = insert k (fst ` set d)"
  by (induction d k v rule: dict_set.induct) auto

lemma distinct_dict_set: "distinct (map fst d) \<Longrightarrow> distinct (map fst (dict_set d k v))"
  by (induction d k v rule: dict_set.induct) (auto simp: keys_dict_set)

lemma check_website_Inr:
  "\<exists>is_up detail code. check_website T r = Inr (is_up, detail, code)"
  by (cases r; auto simp add: check_website_def split: exn.splits)

lemma check_website_checked_up:
  "check_website (TIMEOUT_SECONDS cfg) (http_get env k u) = Inr (is_up, detail, code)
   \<Longrightarrow> checked_up cfg env k u = is_up"
  by (simp add: checked_up_def)

lemma check_loop_step:
  assumes chk: "check_website (TIMEOUT_SECONDS cfg) (http_get env (length (gets w)) u)
                  = Inr (is_up, detail, code)"
  shows "\<exists>w3. check_loop cfg env (PDict d) (u # ws) (cur, chg, w)
             = check_loop cfg env (PDict d) ws
                 (dict_set cur u is_up, chg @ change_of cfg env d (length (gets w)) u, w3)
           \<and> state_file w3 = state_file w \<and> posts w3 = posts w
           \<and> slept w3 = slept w \<and> saved w3 = saved w \<and> gets w3 = gets w @ [u]"
proof (cases "py_ne is_up (case map_of d u of None \<Rightarrow> PBool True | Some v \<Rightarrow> v)")
  case True
  then show ?thesis
    apply (simp add: chk change_of_def Let_def)
    apply (rule exI)
    apply (rule conjI)
     apply (rule refl)
    apply simp
    done
next
  case False
  then show ?thesis
    apply (simp add: chk change_of_def Let_def)
    apply (rule exI)
    apply (rule conjI)
     apply (rule refl)
    apply simp
    done
qed

lemma check_loop_dict:
  "\<exists>w'. check_loop cfg env (PDict d) ws (cur, chg, w)
       = Inr (final_state cfg env (length (gets w)) ws cur,
              chg @ changes_from cfg env d (length (gets w)) ws, w')
     \<and> same_outside_log w' w \<and> gets w' = gets w @ ws"
proof (induction ws arbitrary: cur chg w)
  case Nil
  show ?case by (simp add: same_outside_log_def)
next
  case (Cons u ws)
  define k where "k = length (gets w)"
  obtain is_up detail code where
    chk: "check_website (TIMEOUT_SECONDS cfg) (http_get env (length (gets w)) u)
            = Inr (is_up, detail, code)"
    using check_website_Inr by blast
  have up: "checked_up cfg env k u = is_up"
    using chk unfolding k_def by (rule check_website_checked_up)
  obtain w3 where
    step: "check_loop cfg env (PDict d) (u # ws) (cur, chg, w)
      = check_loop cfg env (PDict d) ws (dict_set cur u is_up, chg @ change_of cfg env d k u, w3)"
    and w3f: "same_outside_log w3 w" and g3: "gets w3 = gets w @ [u]"
    using check_loop_step [OF chk, of d ws cur chg] unfolding same_outside_log_def k_def by blast
  have k3: "length (gets w3) = Suc k"
    using g3 by (simp add: k_def)
  obtain w' where
    run: "check_loop cfg env (PDict d) ws (dict_set cur u is_up, chg @ change_of cfg env d k u, w3)
            = Inr (final_state cfg env (Suc k) ws (dict_set cur u is_up),
                   (chg @ change_of cfg env d k u) @ changes_from cfg env d (Suc k) ws, w')"
    and f: "same_outside_log w' w3" and g: "gets w' = gets w3 @ ws"
    using Cons.IH [of "dict_set cur u is_up" "chg @ change_of cfg env d k u" w3]
    unfolding k3 by blast
  have 1: "check_loop cfg env (PDict d) (u # ws) (cur, chg, w)
      = Inr (final_state cfg env k (u # ws) cur, chg @ changes_from cfg env d k (u # ws), w')"
    using step run up by simp
  have 5: "same_outside_log w' w"
    using f w3f by (simp add: same_outside_log_def)
  have 6: "gets w' = gets w @ u # ws"
    using g g3 by simp
  from 1 5 6 show ?case unfolding k_def by blast
qed

lemma keys_final_state:
  "fst ` set (final_state cfg env k ws cur) = fst ` set cur \<union> set ws"
  by (induction ws arbitrary: cur k) (auto simp add: keys_dict_set)

lemma distinct_final_state:
  "distinct (map fst cur) \<Longrightarrow> distinct (map fst (final_state cfg env k ws cur))"
  by (induction ws arbitrary: cur k) (simp_all add: distinct_dict_set)

lemma map_of_final_state_other:
  "x \<notin> set ws \<Longrightarrow> map_of (final_state cfg env k ws cur) x = map_of cur x"
  by (induction ws arbitrary: cur k) (auto simp add: map_of_dict_set)

text \<open>The value of a key is the classification at its last listing.\<close>

lemma map_of_final_state_last:
  assumes "i < length ws" and "\<forall>j < length ws. i < j \<longrightarrow> ws ! j \<noteq> ws ! i"
  shows "map_of (final_state cfg env k ws cur) (ws ! i) = Some (checked_up cfg env (k + i) (ws ! i))"
  using assms
proof (induction ws arbitrary: cur k i)
  case Nil
  then show ?case by simp
next
  case (Cons u ws)
  show ?case
  proof (cases i)
    case 0
    have "u \<notin> set ws"
    proof
      assume "u \<in> set ws"
      then obtain j where "j < length ws" "ws ! j = u" by (auto simp add: in_set_conv_nth)
      then have "Suc j < length (u # ws)" "(u # ws) ! Suc j = (u # ws) ! i"
        using 0 by simp_all
      then show False using Cons.prems(2) 0 by blast
    qed
    then show ?thesis using 0 by (simp add: map_of_final_state_other map_of_dict_set)
  next
    case (Suc i')
    have a: "i' < length ws" using Cons.prems(1) Suc by simp
    have b: "\<forall>j < length ws. i' < j \<longrightarrow> ws ! j \<noteq> ws ! i'"
    proof (intro allI impI)
      fix j assume "j < length ws" "i' < j"
      then have "Suc j < length (u # ws)" "i < Suc j" using Suc by simp_all
      then have "(u # ws) ! Suc j \<noteq> (u # ws) ! i" using Cons.prems(2) by blast
      then show "ws ! j \<noteq> ws ! i'" using Suc by simp
    qed
    show ?thesis
      using Cons.IH [OF a b, of "Suc k" "dict_set cur u (checked_up cfg env k u)"] Suc by simp
  qed
qed

lemma final_state_cong:
  assumes "\<forall>i < length ws. checked_up cfg env1 (k1 + i) (ws ! i) = checked_up cfg env2 (k2 + i) (ws ! i)"
  shows "final_state cfg env1 k1 ws cur = final_state cfg env2 k2 ws cur"
  using assms
proof (induction ws arbitrary: cur k1 k2)
  case Nil
  show ?case by simp
next
  case (Cons u ws)
  have h: "checked_up cfg env1 k1 u = checked_up cfg env2 k2 u"
    using Cons.prems by fastforce
  have "\<forall>i < length ws. checked_up cfg env1 (Suc k1 + i) (ws ! i)
                       = checked_up cfg env2 (Suc k2 + i) (ws ! i)"
  proof (intro allI impI)
    fix i assume "i < length ws"
    then have "Suc i < length (u # ws)" by simp
    then have "checked_up cfg env1 (k1 + Suc i) ((u # ws) ! Suc i)
             = checked_up cfg env2 (k2 + Suc i) ((u # ws) ! Suc i)"
      using Cons.prems by blast
    then show "checked_up cfg env1 (Suc k1 + i) (ws ! i) = checked_up cfg env2 (Suc k2 + i) (ws ! i)"
      by simp
  qed
  then have "final_state cfg env1 (Suc k1) ws (dict_set cur u (checked_up cfg env1 k1 u))
           = final_state cfg env2 (Suc k2) ws (dict_set cur u (checked_up cfg env1 k1 u))"
    by (rule Cons.IH)
  then show ?case using h by simp
qed







lemma change_of_unchanged:
  assumes "map_of d u = Some (PBool (checked_up cfg env k u))"
  shows "change_of cfg env d k u = []"
proof -
  obtain is_up detail code where
    chk: "check_website (TIMEOUT_SECONDS cfg) (http_get env k u) = Inr (is_up, detail, code)"
    using check_website_Inr by blast
  have "checked_up cfg env k u = is_up" using chk by (rule check_website_checked_up)
  then show ?thesis using assms chk by (simp add: change_of_def)
qed

lemma changes_from_unchanged:
  assumes "\<forall>i < length ws. map_of d (ws ! i) = Some (PBool (checked_up cfg env (k + i) (ws ! i)))"
  shows "changes_from cfg env d k ws = []"
  using assms
proof (induction ws arbitrary: k)
  case Nil
  show ?case by simp
next
  case (Cons u ws)
  have "map_of d u = Some (PBool (checked_up cfg env k u))"
    using Cons.prems by fastforce
  then have a: "change_of cfg env d k u = []" by (rule change_of_unchanged)
  have "\<forall>i < length ws. map_of d (ws ! i) = Some (PBool (checked_up cfg env (Suc k + i) (ws ! i)))"
  proof (intro allI impI)
    fix i assume "i < length ws"
    then have "Suc i < length (u # ws)" by simp
    then have "map_of d ((u # ws) ! Suc i)
        = Some (PBool (checked_up cfg env (k + Suc i) ((u # ws) ! Suc i)))"
      using Cons.prems by blast
    then show "map_of d (ws ! i) = Some (PBool (checked_up cfg env (Suc k + i) (ws ! i)))"
      by simp
  qed
  then have "changes_from cfg env d (Suc k) ws = []" by (rule Cons.IH)
  then show ?case using a by simp
qed

lemma send_loop_result:
  "\<exists>w'. send_loop cfg env changes w = Inr w'
      \<and> posts w' = posts w @ status_messages cfg env (length (posts w)) changes
      \<and> log w' = log w @ map (\<lambda>k. send_log_line (http_post env k))
                              [length (posts w) ..< length (posts w) + length changes]
      \<and> state_file w' = state_file w \<and> saved w' = saved w
      \<and> slept w' = slept w + length changes \<and> gets w' = gets w"
proof (induction changes arbitrary: w)
  case Nil
  show ?case by simp
next
  case (Cons c changes)
  obtain website is_up error_msg status_code where c: "c = (website, is_up, error_msg, status_code)"
    by (cases c)
  define n where "n = length (posts w)"
  define message where "message = format_status_message (variant cfg) (now env n)
                      website is_up error_msg status_code"
  obtain ok w1 where
    s: "send_telegram_message env message w = Inr (ok, w1)"
    and p1: "posts w1 = posts w @ [message]"
    and l1: "log w1 = log w @ [send_log_line (http_post env n)]"
    and f1: "state_file w1 = state_file w" "slept w1 = slept w" "saved w1 = saved w"
            "gets w1 = gets w"
    using send_telegram_message_result [of env message w] unfolding n_def by blast
  define w2 where "w2 = w1\<lparr>slept := slept w1 + 1\<rparr>"
  have step: "send_loop cfg env (c # changes) w = send_loop cfg env changes w2"
    using s by (simp add: c message_def w2_def n_def)
  have n2: "length (posts w2) = Suc n"
    using p1 by (simp add: w2_def n_def)
  obtain w' where
    r: "send_loop cfg env changes w2 = Inr w'"
    and p: "posts w' = posts w2 @ status_messages cfg env (Suc n) changes"
    and l: "log w' = log w2 @ map (\<lambda>k. send_log_line (http_post env k))
                              [Suc n ..< Suc n + length changes]"
    and f: "state_file w' = state_file w2" "saved w' = saved w2"
           "slept w' = slept w2 + length changes" "gets w' = gets w2"
    using Cons.IH [of w2] unfolding n2 by blast
  have 1: "send_loop cfg env (c # changes) w = Inr w'"
    using step r by simp
  have 2: "posts w' = posts w @ status_messages cfg env n (c # changes)"
    using p p1 by (simp add: w2_def c message_def)
  have "[n ..< n + Suc (length changes)] = n # [Suc n ..< n + Suc (length changes)]"
    by (rule upt_conv_Cons) simp
  then have "[n ..< n + length (c # changes)] = n # [Suc n ..< Suc n + length changes]"
    by simp
  then have 3: "log w' = log w @ map (\<lambda>k. send_log_line (http_post env k))
                              [n ..< n + length (c # changes)]"
    using l l1 by (simp add: w2_def)
  have 4: "state_file w' = state_file w \<and> saved w' = saved w
      \<and> slept w' = slept w + length (c # changes) \<and> gets w' = gets w"
    using f f1 by (simp add: w2_def)
  from 1 2 3 4 show ?case unfolding n_def by blast
qed

lemma length_status_messages: "length (status_messages cfg env k changes) = length changes"
  by (induction changes arbitrary: k) auto


lemma notify_result:
  "\<exists>w'. notify cfg env current_state changes w = Inr w'
      \<and> posts w' = posts w @ notifications cfg env (length (posts w)) current_state changes
      \<and> log w' = log w @ map (\<lambda>k. send_log_line (http_post env k))
            [length (posts w) ..<
             length (posts w) + length (notifications cfg env (length (posts w)) current_state changes)]
      \<and> state_file w' = state_file w \<and> saved w' = saved w \<and> gets w' = gets w"
proof (cases "changes = []")
  case True
  then show ?thesis by (simp add: notify_def notifications_def)
next
  case False
  define n where "n = length (posts w)"
  obtain w1 where
    r: "send_loop cfg env changes w = Inr w1"
    and p: "posts w1 = posts w @ status_messages cfg env n changes"
    and l: "log w1 = log w @ map (\<lambda>k. send_log_line (http_post env k)) [n ..< n + length changes]"
    and f: "state_file w1 = state_file w" "saved w1 = saved w" "gets w1 = gets w"
    using send_loop_result [of cfg env changes w] unfolding n_def by blast
  have n1: "length (posts w1) = n + length changes"
    using p by (simp add: n_def length_status_messages)
  show ?thesis
  proof (cases "variant cfg")
    case Hardcoded
    have 1: "notify cfg env current_state changes w = Inr w1"
      using False Hardcoded r by (simp add: notify_def)
    have 2: "notifications cfg env n current_state changes = status_messages cfg env n changes"
      using False Hardcoded by (simp add: notifications_def)
    show ?thesis
      using 1 p l f unfolding n_def [symmetric] 2 by (simp add: length_status_messages)
  next
    case FromConfig
    define summary_message where
      "summary_message = format_summary_message (now env (n + length changes)) current_state"
    obtain ok w2 where
      s: "send_telegram_message env summary_message w1 = Inr (ok, w2)"
      and p2: "posts w2 = posts w1 @ [summary_message]"
      and l2: "log w2 = log w1 @ [send_log_line (http_post env (n + length changes))]"
      and f2: "state_file w2 = state_file w1" "saved w2 = saved w1" "gets w2 = gets w1"
      using send_telegram_message_result [of env summary_message w1] unfolding n1 by blast
    have 1: "notify cfg env current_state changes w = Inr w2"
      using False FromConfig r s by (simp add: notify_def summary_message_def n1)
    have 2: "notifications cfg env n current_state changes
               = status_messages cfg env n changes @ [summary_message]"
      using False FromConfig by (simp add: notifications_def summary_message_def)
    have 3: "posts w2 = posts w @ notifications cfg env n current_state changes"
      using p p2 unfolding 2 by simp
    have "[n ..< n + Suc (length changes)] = [n ..< n + length changes] @ [n + length changes]"
      by simp
    then have 4: "log w2 = log w @ map (\<lambda>k. send_log_line (http_post env k))
            [n ..< n + length (notifications cfg env n current_state changes)]"
      using l l2 unfolding 2 by (simp add: length_status_messages)
    from 1 3 4 f f2 show ?thesis unfolding n_def by simp
  qed
qed

lemma load_state_logger:
  "fst (load_state (logger l m w)) = fst (load_state w)"
  by (simp add: load_state_def split: stored.splits)

lemma load_state_world:
  "same_outside_log (snd (load_state w)) w \<and> gets (snd (load_state w)) = gets w"
  by (simp add: load_state_def same_outside_log_def split: stored.splits)

lemma same_outside_log_logger: "same_outside_log (logger l m w) w"
  by (simp add: same_outside_log_def)

lemma same_outside_log_trans:
  "same_outside_log w3 w2 \<Longrightarrow> same_outside_log w2 w1 \<Longrightarrow> same_outside_log w3 w1"
  by (simp add: same_outside_log_def)

lemma detect_unfold:
  "detect cfg env w
     = check_loop cfg env (fst (load_state w)) (WEBSITES cfg)
         ([], [], snd (load_state (logger INFO (lit ''Starting website monitoring check'') w)))"
  by (simp add: detect_def split_beta Let_def load_state_logger)

lemma detect_result:
  assumes "fst (load_state w) = PDict d"
  shows "\<exists>w2. detect cfg env w
            = Inr (final_state cfg env (length (gets w)) (WEBSITES cfg) [],
                   changes_from cfg env d (length (gets w)) (WEBSITES cfg), w2)
          \<and> same_outside_log w2 w \<and> gets w2 = gets w @ WEBSITES cfg"
proof -
  define w1 where
    "w1 = snd (load_state (logger INFO (lit ''Starting website monitoring check'') w))"
  have d: "detect cfg env w = check_loop cfg env (PDict d) (WEBSITES cfg) ([], [], w1)"
    using assms by (simp add: detect_unfold w1_def)
  have w1w: "same_outside_log w1 w"
    unfolding w1_def
    using load_state_world same_outside_log_logger same_outside_log_trans by blast
  have g1: "gets w1 = gets w"
    unfolding w1_def using load_state_world [of "logger INFO (lit ''Starting website monitoring check'') w"]
    by simp
  obtain w2 where
    r: "check_loop cfg env (PDict d) (WEBSITES cfg) ([], [], w1)
       = Inr (final_state cfg env (length (gets w1)) (WEBSITES cfg) [],
              [] @ changes_from cfg env d (length (gets w1)) (WEBSITES cfg), w2)"
    and f: "same_outside_log w2 w1" and g: "gets w2 = gets w1 @ WEBSITES cfg"
    using check_loop_dict [of cfg env d "WEBSITES cfg" "[]" "[]" w1] by blast
  have "same_outside_log w2 w"
    using f w1w by (rule same_outside_log_trans)
  then show ?thesis using d r g g1 by simp
qed

lemma save_state_result:
  "saved (save_state env state w) = saved w @ [state]
   \<and> posts (save_state env state w) = posts w
   \<and> state_file (save_state env state w) = file_after env state (state_file w)
   \<and> set (log w) \<subseteq> set (log (save_state env state w))
   \<and> gets (save_state env state w) = gets w"
  by (auto simp add: save_state_def file_after_def Let_def split: write_outcome.splits)

text \<open>What a run does once the loop has returned.\<close>

lemma main_after_detect:
  assumes dr: "detect cfg env w = Inr (cur, chg, w2)" and f2: "same_outside_log w2 w"
  shows "\<exists>w'. main cfg env w = Inr w'
     \<and> posts w' = posts w @ notifications cfg env (length (posts w)) cur chg
     \<and> (\<forall>k < length (notifications cfg env (length (posts w)) cur chg).
           send_log_line (http_post env (length (posts w) + k)) \<in> set (log w'))
     \<and> saved w' = saved w @ [cur]
     \<and> state_file w' = file_after env cur (state_file w)
     \<and> gets w' = gets w2"
proof -
  define n where "n = length (posts w)"
  have n2: "length (posts w2) = n"
    using f2 by (simp add: same_outside_log_def n_def)
  obtain w3 where
    nr: "notify cfg env cur chg w2 = Inr w3"
    and p3: "posts w3 = posts w2 @ notifications cfg env n cur chg"
    and l3: "log w3 = log w2 @ map (\<lambda>k. send_log_line (http_post env k))
            [n ..< n + length (notifications cfg env n cur chg)]"
    and f3: "state_file w3 = state_file w2" "saved w3 = saved w2" "gets w3 = gets w2"
    using notify_result [of cfg env cur chg w2] unfolding n2 by blast
  define w' where
    "w' = logger INFO (lit ''Check completed. '' @ str_int (int (length chg))
                       @ lit '' status changes detected.'') (save_state env cur w3)"
  have 1: "main cfg env w = Inr w'"
    using dr nr by (simp add: main_def w'_def)
  have 2: "posts w' = posts w @ notifications cfg env n cur chg"
    using p3 f2 by (simp add: w'_def save_state_result same_outside_log_def)
  have sub: "set (log w3) \<subseteq> set (log w')"
    using save_state_result [of env cur w3] by (auto simp add: w'_def)
  have 3: "\<forall>k < length (notifications cfg env n cur chg).
           send_log_line (http_post env (n + k)) \<in> set (log w')"
  proof (intro allI impI)
    fix k assume "k < length (notifications cfg env n cur chg)"
    then have "n + k \<in> set [n ..< n + length (notifications cfg env n cur chg)]" by simp
    then have "send_log_line (http_post env (n + k))
        \<in> (\<lambda>k. send_log_line (http_post env k))
            ` set [n ..< n + length (notifications cfg env n cur chg)]"
      by (rule imageI)
    then have "send_log_line (http_post env (n + k)) \<in> set (log w3)"
      unfolding l3 by simp
    then show "send_log_line (http_post env (n + k)) \<in> set (log w')"
      using sub by blast
  qed
  have 4: "saved w' = saved w @ [cur]"
    using f3 f2 by (simp add: w'_def save_state_result same_outside_log_def)
  have 5: "state_file w' = file_after env cur (state_file w)"
    using f3 f2 by (simp add: w'_def save_state_result same_outside_log_def)
  have 6: "gets w' = gets w2"
    using f3 by (simp add: w'_def save_state_result)
  from 1 2 3 4 5 6 show ?thesis unfolding n_def by blast
qed

lemma main_result:
  assumes "fst (load_state w) = PDict d"
  shows "\<exists>w'. main cfg env w = Inr w'
     \<and> posts w' = posts w @ notifications cfg env (length (posts w))
                              (final_state cfg env (length (gets w)) (WEBSITES cfg) [])
                              (changes_from cfg env d (length (gets w)) (WEBSITES cfg))
     \<and> (\<forall>k < length (notifications cfg env (length (posts w))
                              (final_state cfg env (length (gets w)) (WEBSITES cfg) [])
                              (changes_from cfg env d (length (gets w)) (WEBSITES cfg))).
           send_log_line (http_post env (length (posts w) + k)) \<in> set (log w'))
     \<and> saved w' = saved w @ [final_state cfg env (length (gets w)) (WEBSITES cfg) []]
     \<and> state_file w' = file_after env (final_state cfg env (length (gets w)) (WEBSITES cfg) [])
                           (state_file w)
     \<and> gets w' = gets w @ WEBSITES cfg"
proof -
  obtain w2 where
    dr: "detect cfg env w = Inr (final_state cfg env (length (gets w)) (WEBSITES cfg) [],
                   changes_from cfg env d (length (gets w)) (WEBSITES cfg), w2)"
    and f2: "same_outside_log w2 w" and g2: "gets w2 = gets w @ WEBSITES cfg"
    using detect_result [OF assms, of cfg env] by blast
  show ?thesis
    using main_after_detect [OF dr f2] unfolding g2 .
qed

lemma py_get_Inr_is_dict: "py_get prev key dflt = Inr v \<Longrightarrow> is_dict prev"
  by (cases prev) simp_all

lemma is_dict_PDict: "is_dict v \<Longrightarrow> \<exists>d. v = PDict d"
  by (cases v) simp_all

lemma check_loop_Inr_cases:
  assumes "check_loop cfg env prev ws acc = Inr r"
  shows "is_dict prev \<or> ws = []"
proof (cases ws)
  case Nil
  then show ?thesis by simp
next
  case (Cons u rest)
  obtain cur chg w where acc: "acc = (cur, chg, w)" by (cases acc)
  define w0 where "w0 = logger INFO (lit ''Checking '' @ u) w"
  obtain is_up detail code where
    chk: "check_website (TIMEOUT_SECONDS cfg) (http_get env (length (gets w0)) u)
            = Inr (is_up, detail, code)"
    using check_website_Inr by blast
  have "\<exists>v. py_get prev u (PBool True) = Inr v"
  proof (cases "py_get prev u (PBool True)")
    case (Inl e)
    then have "check_loop cfg env prev (u # rest) (cur, chg, w) = Inl e"
      using chk by (simp add: w0_def Let_def)
    then show ?thesis using assms Cons acc by simp
  next
    case (Inr v)
    then show ?thesis by blast
  qed
  then show ?thesis using py_get_Inr_is_dict by blast
qed

text \<open>A run that returns has called \<open>save_state\<close> with the map the loop built.\<close>

lemma main_Inr_result:
  assumes "main cfg env w = Inr w'"
  shows "\<exists>chg w2. detect cfg env w
                    = Inr (final_state cfg env (length (gets w)) (WEBSITES cfg) [], chg, w2)
     \<and> saved w' = saved w @ [final_state cfg env (length (gets w)) (WEBSITES cfg) []]
     \<and> state_file w' = file_after env (final_state cfg env (length (gets w)) (WEBSITES cfg) [])
                           (state_file w)"
proof -
  define w1 where
    "w1 = snd (load_state (logger INFO (lit ''Starting website monitoring check'') w))"
  obtain r where dr: "detect cfg env w = Inr r"
    using assms by (cases "detect cfg env w") (simp_all add: main_def)
  then have "check_loop cfg env (fst (load_state w)) (WEBSITES cfg) ([], [], w1) = Inr r"
    by (simp add: detect_unfold w1_def)
  then consider "is_dict (fst (load_state w))" | "WEBSITES cfg = []"
    using check_loop_Inr_cases by blast
  then obtain chg w2 where
    d2: "detect cfg env w = Inr (final_state cfg env (length (gets w)) (WEBSITES cfg) [], chg, w2)"
    and f2: "same_outside_log w2 w"
  proof cases
    case 1
    then obtain d where "fst (load_state w) = PDict d"
      using is_dict_PDict by blast
    then show ?thesis using detect_result [of w d cfg env] that by blast
  next
    case 2
    have "detect cfg env w = Inr ([], [], w1)"
      by (simp add: detect_unfold w1_def 2)
    moreover have "same_outside_log w1 w"
      unfolding w1_def
      using load_state_world same_outside_log_logger same_outside_log_trans by blast
    ultimately show ?thesis using that [of "[]" w1] 2 by simp
  qed
  obtain w'' where "main cfg env w = Inr w''"
    and "saved w'' = saved w @ [final_state cfg env (length (gets w)) (WEBSITES cfg) []]"
    and "state_file w'' = file_after env (final_state cfg env (length (gets w)) (WEBSITES cfg) [])
                           (state_file w)"
    using main_after_detect [OF d2 f2] by blast
  then show ?thesis using assms d2 by auto
qed

lemma website_monitor_py_distinct: "distinct (WEBSITES website_monitor_py)"
  by (simp add: website_monitor_py_def lit_def)

lemma count_list_distinct: "distinct xs \<Longrightarrow> x \<in> set xs \<Longrightarrow> count_list xs x = 1"
  by (induction xs) auto

lemma website_monitor_py_listed_once:
  "u \<in> set (WEBSITES website_monitor_py) \<Longrightarrow> count_list (WEBSITES website_monitor_py) u = 1"
  using website_monitor_py_distinct by (rule count_list_distinct)

lemma website_monitor_py_timeout:
  "check_website (TIMEOUT_SECONDS website_monitor_py) (Inl (Timeout m))
     = Inr (False, lit ''Timeout after 30s'', None)"
  by (simp add: check_website_def website_monitor_py_def str_int_30 lit_def)

subsection \<open>The Checker\<close>

text \<open>
  C3. When a response is received, \<open>check_website\<close> classifies it by the status code alone:
  code 200 gives \<open>(True, "OK", 200)\<close>, and any other code \<open>c\<close> gives
  \<open>(False, "HTTP c", c)\<close> with \<open>c\<close> in decimal.
\<close>

theorem check_website_response:
  "check_website T (Inr c) =
     (if c = 200 then Inr (True, lit ''OK'', Some 200)
      else Inr (False, lit ''HTTP '' @ str_int c, Some c))"
  by (simp add: check_website_def)

text \<open>
  C4. When the request raises, \<open>check_website\<close> returns down with no status code and the detail
  of the first handler that matches: a timeout gives \<open>"Timeout after Ns"\<close> for the configured
  \<open>N\<close>; another request exception gives \<open>"Connection failed"\<close> if its text contains
  \<open>"ConnectionError"\<close>, else \<open>"SSL error"\<close> if it contains \<open>"SSLError"\<close>, else \<open>"Error: "\<close> and the
  first 100 characters of its text; any other exception gives \<open>"Unexpected error: "\<close> and the
  first 100 characters of its text.
\<close>

theorem check_website_failure:
  "check_website T (Inl (Timeout m)) =
       Inr (False, lit ''Timeout after '' @ str_int T @ lit ''s'', None)
   \<and> check_website T (Inl (RequestException m)) =
       Inr (False,
            (if contains m (lit ''ConnectionError'') then lit ''Connection failed''
             else if contains m (lit ''SSLError'') then lit ''SSL error''
             else lit ''Error: '' @ take 100 m), None)
   \<and> check_website T (Inl (AttributeError m)) =
       Inr (False, lit ''Unexpected error: '' @ take 100 m, None)
   \<and> check_website T (Inl (OtherException m)) =
       Inr (False, lit ''Unexpected error: '' @ take 100 m, None)"
  by (simp add: check_website_def)

text \<open>
  C9. \<open>check_website\<close> never raises: whatever the request does, it returns a triple, and when the
  request raised, the triple is a down classification without a status code.
\<close>

theorem check_website_total:
  "\<exists>is_up detail code.
      check_website T r = Inr (is_up, detail, code)
      \<and> (\<forall>e. r = Inl e \<longrightarrow> \<not> is_up \<and> code = None)"
  by (cases r; auto simp add: check_website_def split: exn.splits)

theorem check_website_total_witness:
  "\<exists>is_up detail code.
      check_website 30 (Inl (OtherException (lit ''boom''))) = Inr (is_up, detail, code)
      \<and> \<not> is_up \<and> code = None"
  using check_website_total [of 30 "Inl (OtherException (lit ''boom''))"] by simp

subsection \<open>The notification sink\<close>

text \<open>
  C8, as the code has it. \<open>send_telegram_message\<close> never raises. It returns \<open>True\<close> exactly when a
  response arrives with status code 200, and \<open>False\<close> when the request raises or the response has
  any other status code; every \<open>False\<close> return adds an \<open>ERROR\<close> line to the log.
\<close>

theorem send_telegram_message_true_iff_200:
  "\<exists>ok w'. send_telegram_message env message w = Inr (ok, w')
      \<and> (ok \<longleftrightarrow> (\<exists>body. http_post env (length (posts w)) = Inr (200, body)))
      \<and> (\<not> ok \<longrightarrow> (\<exists>m. log w' = log w @ [(ERROR, m)]))"
  using send_telegram_message_result [of env message w] by blast

theorem send_telegram_message_true_iff_200_witness:
  "\<exists>w' m. send_telegram_message env_500_sink_down a_test world0 = Inr (False, w')
      \<and> log w' = log world0 @ [(ERROR, m)]"
  using send_telegram_message_true_iff_200 [of env_500_sink_down a_test world0]
  by (auto simp add: env_500_sink_down_def env_500_def world0_def)

text \<open>
  A response with status code 204 is a success by its class (2xx), and \<open>send_telegram_message\<close>
  returns \<open>False\<close> for it and logs a failure.
\<close>

lemma str_int_204: "str_int 204 = lit ''204''"
  by (simp add: str_int_def lit_def str_nat.simps)

theorem send_telegram_message_204_counterexample:
  "http_post env_204 (length (posts world0)) = Inr (204, [])
   \<and> send_telegram_message env_204 a_test world0
       = Inr (False, world0\<lparr>log := [(ERROR, lit ''Failed to send Telegram message: 204 - '')],
                             posts := [a_test]\<rparr>)"
  by (simp add: send_telegram_message_def env_204_def env_500_def world0_def logger_def
        str_int_204 lit_def)

subsection \<open>The concrete runs, evaluated\<close>

lemma websites_cfg_a: "WEBSITES cfg_a = [a_test]"
  by (simp add: cfg_a_def)

lemma websites_cfg_aa: "WEBSITES cfg_aa = [a_test, a_test]"
  by (simp add: cfg_aa_def)

lemma load_world_a_up: "fst (load_state world_a_up) = PDict [(a_test, PBool True)]"
  by (simp add: world_a_up_def world0_def load_state_def)

lemma load_world0: "fst (load_state world0) = PDict []"
  by (simp add: world0_def load_state_def)

lemma world0_fields:
  "gets world0 = []" "posts world0 = []" "saved world0 = []" "state_file world0 = Missing"
  by (simp_all add: world0_def)

lemma world_a_up_fields:
  "gets world_a_up = []" "posts world_a_up = []" "saved world_a_up = []"
  by (simp_all add: world_a_up_def world0_def)

lemma check_cfg_a_500:
  "check_website (TIMEOUT_SECONDS cfg_a) (http_get env_500 k a_test)
     = Inr (False, lit ''HTTP 500'', Some 500)"
  by (simp add: cfg_a_def env_500_def check_website_def str_int_500 lit_def)

lemma checked_up_cfg_a_500: "checked_up cfg_a env_500 k a_test = False"
  by (simp add: checked_up_def check_cfg_a_500)

lemma change_of_cfg_a_500_up:
  "change_of cfg_a env_500 [(a_test, PBool True)] k a_test
     = [(a_test, False, lit ''HTTP 500'', Some 500)]"
  by (simp add: change_of_def check_cfg_a_500)

lemma load_state_Holds: "state_file w = Holds v \<Longrightarrow> fst (load_state w) = v"
  by (simp add: load_state_def)

lemma file_after_WriteOk:
  "file_write env = WriteOk \<Longrightarrow> file_after env state old = Holds (json_of_state state)"
  by (simp add: file_after_def)

lemma status_messages_env_post [simp]:
  "status_messages cfg (env\<lparr>http_post := p\<rparr>) k changes = status_messages cfg env k changes"
  by (induction changes arbitrary: k) auto

lemma notifications_env_post [simp]:
  "notifications cfg (env\<lparr>http_post := p\<rparr>) k cur changes = notifications cfg env k cur changes"
  by (simp add: notifications_def split: variant.splits)

lemma checked_up_env_post [simp]:
  "checked_up cfg (env\<lparr>http_post := p\<rparr>) = checked_up cfg env"
  by (simp add: checked_up_def fun_eq_iff)

lemma final_state_env_post [simp]:
  "final_state cfg (env\<lparr>http_post := p\<rparr>) k ws cur = final_state cfg env k ws cur"
  by (induction ws arbitrary: k cur) simp_all

lemma change_of_env_post [simp]:
  "change_of cfg (env\<lparr>http_post := p\<rparr>) d = change_of cfg env d"
  by (simp add: change_of_def fun_eq_iff)

lemma changes_from_env_post [simp]:
  "changes_from cfg (env\<lparr>http_post := p\<rparr>) d k ws = changes_from cfg env d k ws"
  by (induction ws arbitrary: k) simp_all

lemma file_after_env_post [simp]:
  "file_after (env\<lparr>http_post := p\<rparr>) state old = file_after env state old"
  by (simp add: file_after_def)

lemma send_log_line_raise:
  "answer = Inl e \<Longrightarrow> send_log_line answer = (ERROR, lit ''Error sending Telegram message: '' @ str_exn e)"
  by (simp add: send_log_line_def)

lemma send_log_line_not_200:
  "answer = Inr (code, body) \<Longrightarrow> code \<noteq> 200 \<Longrightarrow>
   send_log_line answer
     = (ERROR, lit ''Failed to send Telegram message: '' @ str_int code @ lit '' - '' @ body)"
  by (simp add: send_log_line_def)

lemma str_int_502: "str_int 502 = lit ''502''"
  by (simp add: str_int_def lit_def str_nat.simps)


lemma last_listing:
  assumes "i < length ws"
  shows "\<exists>j < length ws. ws ! j = ws ! i \<and> (\<forall>j' < length ws. j < j' \<longrightarrow> ws ! j' \<noteq> ws ! j)"
proof -
  define S where "S = {j. j < length ws \<and> ws ! j = ws ! i}"
  have fin: "finite S" unfolding S_def by simp
  have ne: "S \<noteq> {}" unfolding S_def using assms by blast
  define j where "j = Max S"
  have jS: "j \<in> S" unfolding j_def using fin ne by (rule Max_in)
  have top: "j' \<le> j" if "j' \<in> S" for j'
    unfolding j_def using fin that by (rule Max_ge)
  have "\<forall>j' < length ws. j < j' \<longrightarrow> ws ! j' \<noteq> ws ! j"
  proof (intro allI impI notI)
    fix j' assume "j' < length ws" "j < j'" "ws ! j' = ws ! j"
    then have "j' \<in> S" using jS unfolding S_def by simp
    then have "j' \<le> j" by (rule top)
    then show False using \<open>j < j'\<close> by simp
  qed
  then show ?thesis using jS unfolding S_def by blast
qed

lemma map_of_json_of_state:
  "map_of (map (\<lambda>(k, b). (k, PBool b)) state) u = map_option PBool (map_of state u)"
  by (induction state) auto

lemma str_int_200: "str_int 200 = lit ''200''"
  by (simp add: str_int_def lit_def str_nat.simps)

subsection \<open>The run\<close>

text \<open>
  C2, as the code has it. When \<open>load_state\<close> returns a dictionary, the run completes without
  raising whatever the sink answers to each POST: the messages handed to the sink are the one
  message of each queued change record, in order and once each (and the summary where the
  variant has it); every POST that raises or is answered with a status code other than 200
  leaves its \<open>ERROR\<close> line in the log; \<open>save_state\<close> is called with the newly built
  \<open>current_state\<close>, whose keys are the configured targets; and a successful write leaves the
  file holding that map.
\<close>

theorem run_completes_whatever_the_sink_answers:
  assumes "is_dict (fst (load_state w))"
  shows "\<exists>current_state status_changed w2.
      detect cfg env w = Inr (current_state, status_changed, w2)
    \<and> fst ` set current_state = set (WEBSITES cfg)
    \<and> (\<forall>post. \<exists>w'. main cfg (env\<lparr>http_post := post\<rparr>) w = Inr w'
         \<and> posts w' = posts w @ notifications cfg env (length (posts w)) current_state status_changed
         \<and> (\<forall>k < length (notifications cfg env (length (posts w)) current_state status_changed).
               (\<forall>e. post (length (posts w) + k) = Inl e
                  \<longrightarrow> (ERROR, lit ''Error sending Telegram message: '' @ str_exn e) \<in> set (log w'))
             \<and> (\<forall>code body. post (length (posts w) + k) = Inr (code, body) \<and> code \<noteq> 200
                  \<longrightarrow> (ERROR, lit ''Failed to send Telegram message: '' @ str_int code
                               @ lit '' - '' @ body) \<in> set (log w')))
         \<and> saved w' = saved w @ [current_state]
         \<and> (file_write env = WriteOk
              \<longrightarrow> state_file w' = Holds (PDict (map (\<lambda>(k, b). (k, PBool b)) current_state))))"
proof -
  obtain d where d: "fst (load_state w) = PDict d"
    using assms is_dict_PDict by blast
  define cur where "cur = final_state cfg env (length (gets w)) (WEBSITES cfg) []"
  define chg where "chg = changes_from cfg env d (length (gets w)) (WEBSITES cfg)"
  define n where "n = length (posts w)"
  define msgs where "msgs = notifications cfg env n cur chg"
  obtain w2 where dr: "detect cfg env w = Inr (cur, chg, w2)"
    using detect_result [OF d, of cfg env] unfolding cur_def chg_def by blast
  have keys: "fst ` set cur = set (WEBSITES cfg)"
    by (simp add: cur_def keys_final_state)
  have runs: "\<exists>w'. main cfg (env\<lparr>http_post := post\<rparr>) w = Inr w'
         \<and> posts w' = posts w @ msgs
         \<and> (\<forall>k < length msgs.
               (\<forall>e. post (n + k) = Inl e
                  \<longrightarrow> (ERROR, lit ''Error sending Telegram message: '' @ str_exn e) \<in> set (log w'))
             \<and> (\<forall>code body. post (n + k) = Inr (code, body) \<and> code \<noteq> 200
                  \<longrightarrow> (ERROR, lit ''Failed to send Telegram message: '' @ str_int code
                               @ lit '' - '' @ body) \<in> set (log w')))
         \<and> saved w' = saved w @ [cur]
         \<and> (file_write env = WriteOk
              \<longrightarrow> state_file w' = Holds (PDict (map (\<lambda>(k, b). (k, PBool b)) cur)))" for post
  proof -
    obtain w' where m: "main cfg (env\<lparr>http_post := post\<rparr>) w = Inr w'"
      and p: "posts w' = posts w @ msgs"
      and l: "\<forall>k < length msgs. send_log_line (post (n + k)) \<in> set (log w')"
      and s: "saved w' = saved w @ [cur]"
      and f: "state_file w' = file_after env cur (state_file w)"
      using main_result [OF d, of cfg "env\<lparr>http_post := post\<rparr>"]
      unfolding msgs_def n_def cur_def chg_def by auto
    have lines: "(\<forall>e. post (n + k) = Inl e
                  \<longrightarrow> (ERROR, lit ''Error sending Telegram message: '' @ str_exn e) \<in> set (log w'))
             \<and> (\<forall>code body. post (n + k) = Inr (code, body) \<and> code \<noteq> 200
                  \<longrightarrow> (ERROR, lit ''Failed to send Telegram message: '' @ str_int code
                               @ lit '' - '' @ body) \<in> set (log w'))"
      if "k < length msgs" for k
    proof -
      have "send_log_line (post (n + k)) \<in> set (log w')" using l that by blast
      then show ?thesis
        using send_log_line_raise [of "post (n + k)"] send_log_line_not_200 [of "post (n + k)"]
        by metis
    qed
    have fl: "file_write env = WriteOk
              \<longrightarrow> state_file w' = Holds (PDict (map (\<lambda>(k, b). (k, PBool b)) cur))"
      using f by (simp add: file_after_WriteOk json_of_state_def)
    from m p lines s fl show ?thesis by blast
  qed
  from dr keys runs show ?thesis unfolding msgs_def n_def by blast
qed

text \<open>
  The scenario of the specification: the file holds \<open>{a: true}\<close>, the check of \<open>a\<close> returns
  HTTP 500, and the sink answers 502 to every POST. The change notification and the summary
  are posted all the same, the failure is logged, and the state \<open>{a: false}\<close> is saved.
\<close>

theorem run_completes_whatever_the_sink_answers_witness:
  "is_dict (fst (load_state world_a_up))
   \<and> (\<exists>w'. main cfg_a env_500_sink_down world_a_up = Inr w'
        \<and> posts w' = [message_a_down, summary_a_down]
        \<and> (ERROR, lit ''Failed to send Telegram message: 502 - Bad Gateway'') \<in> set (log w')
        \<and> saved w' = [[(a_test, False)]]
        \<and> state_file w' = Holds (PDict [(a_test, PBool False)]))"
proof -
  define sink :: "nat \<Rightarrow> exn + int \<times> pystr" where "sink = (\<lambda>k. Inr (502, lit ''Bad Gateway''))"
  have h: "is_dict (fst (load_state world_a_up))"
    by (simp add: load_world_a_up)
  obtain cur chg w2 where
    dr: "detect cfg_a env_500 world_a_up = Inr (cur, chg, w2)"
    and runs: "\<forall>post. \<exists>w'. main cfg_a (env_500\<lparr>http_post := post\<rparr>) world_a_up = Inr w'
         \<and> posts w' = posts world_a_up @ notifications cfg_a env_500 (length (posts world_a_up)) cur chg
         \<and> (\<forall>k < length (notifications cfg_a env_500 (length (posts world_a_up)) cur chg).
               (\<forall>e. post (length (posts world_a_up) + k) = Inl e
                  \<longrightarrow> (ERROR, lit ''Error sending Telegram message: '' @ str_exn e) \<in> set (log w'))
             \<and> (\<forall>code body. post (length (posts world_a_up) + k) = Inr (code, body) \<and> code \<noteq> 200
                  \<longrightarrow> (ERROR, lit ''Failed to send Telegram message: '' @ str_int code
                               @ lit '' - '' @ body) \<in> set (log w')))
         \<and> saved w' = saved world_a_up @ [cur]
         \<and> (file_write env_500 = WriteOk
              \<longrightarrow> state_file w' = Holds (PDict (map (\<lambda>(k, b). (k, PBool b)) cur)))"
  proof -
    from run_completes_whatever_the_sink_answers [OF h, of cfg_a env_500]
    show thesis by (elim exE conjE) (rule that; assumption)
  qed
  have "\<exists>w2. detect cfg_a env_500 world_a_up
           = Inr ([(a_test, False)], [(a_test, False, lit ''HTTP 500'', Some 500)], w2)"
    using detect_result [OF load_world_a_up, of cfg_a env_500]
    by (auto simp add: checked_up_cfg_a_500 websites_cfg_a change_of_cfg_a_500_up)
  then have cur: "cur = [(a_test, False)]"
    and chg: "chg = [(a_test, False, lit ''HTTP 500'', Some 500)]"
    using dr by auto
  have n0: "length (posts world_a_up) = 0" by (simp add: world_a_up_fields)
  have msgs: "notifications cfg_a env_500 k cur chg = [message_a_down, summary_a_down]" for k
    by (simp add: cur chg notifications_def cfg_a_def env_500_def
          message_a_down_def summary_a_down_def)
  obtain w' where
    m: "main cfg_a (env_500\<lparr>http_post := sink\<rparr>) world_a_up = Inr w'"
    and p: "posts w' = posts world_a_up @ notifications cfg_a env_500 (length (posts world_a_up)) cur chg"
    and l: "\<forall>k < length (notifications cfg_a env_500 (length (posts world_a_up)) cur chg).
               (\<forall>e. sink (length (posts world_a_up) + k) = Inl e
                  \<longrightarrow> (ERROR, lit ''Error sending Telegram message: '' @ str_exn e) \<in> set (log w'))
             \<and> (\<forall>code body. sink (length (posts world_a_up) + k) = Inr (code, body) \<and> code \<noteq> 200
                  \<longrightarrow> (ERROR, lit ''Failed to send Telegram message: '' @ str_int code
                               @ lit '' - '' @ body) \<in> set (log w'))"
    and s: "saved w' = saved world_a_up @ [cur]"
    and f: "file_write env_500 = WriteOk
              \<longrightarrow> state_file w' = Holds (PDict (map (\<lambda>(k, b). (k, PBool b)) cur))"
  proof -
    from runs [rule_format, of sink]
    show thesis by (elim exE conjE) (rule that; assumption)
  qed
  have 1: "main cfg_a env_500_sink_down world_a_up = Inr w'"
    using m by (simp add: env_500_sink_down_def sink_def)
  have 2: "posts w' = [message_a_down, summary_a_down]"
    using p by (simp add: msgs world_a_up_fields)
  have "0 < length (notifications cfg_a env_500 (length (posts world_a_up)) cur chg)"
    by (simp add: msgs)
  then have "\<forall>code body. sink (length (posts world_a_up) + 0) = Inr (code, body) \<and> code \<noteq> 200
                  \<longrightarrow> (ERROR, lit ''Failed to send Telegram message: '' @ str_int code
                               @ lit '' - '' @ body) \<in> set (log w')"
    using l by blast
  then have "(ERROR, lit ''Failed to send Telegram message: '' @ str_int 502
                               @ lit '' - '' @ lit ''Bad Gateway'') \<in> set (log w')"
    by (simp add: sink_def)
  then have 3: "(ERROR, lit ''Failed to send Telegram message: 502 - Bad Gateway'') \<in> set (log w')"
    by (simp add: str_int_502 lit_def)
  have 4: "saved w' = [[(a_test, False)]]"
    using s by (simp add: cur world_a_up_fields)
  have 5: "state_file w' = Holds (PDict [(a_test, PBool False)])"
    using f by (simp add: cur env_500_def)
  show ?thesis
    apply (rule conjI [OF h])
    apply (rule exI [of _ w'])
    using 1 2 3 4 5 by simp
qed

text \<open>
  When the state file holds a JSON array, \<open>load_state\<close> returns the list and the first
  \<^verbatim>\<open>previous_state.get\<close> raises \<^verbatim>\<open>AttributeError\<close>: the run ends there, before any send and
  before \<open>save_state\<close>.
\<close>

theorem state_file_holding_a_list_counterexample:
  "main cfg_a env_500 world_list
     = Inl (AttributeError ([39] @ lit ''list'' @ [39] @ lit '' object has no attribute ''
                            @ [39] @ lit ''get'' @ [39]))"
  by (simp add: main_def detect_unfold load_state_def world_list_def world0_def logger_def
        websites_cfg_a check_cfg_a_500 Let_def)




text \<open>
  The same list answered 500, then 200: the second pass finds \<open>a\<close> up, as the default says,
  and one record is enqueued.
\<close>

lemma target_listed_twice_down_then_up:
  "map_sum id (fst \<circ> snd) (detect cfg_aa env_500_then_200 world0)
     = Inr [(a_test, False, lit ''HTTP 500'', Some 500)]"
proof -
  have c0: "change_of cfg_aa env_500_then_200 [] 0 a_test = [(a_test, False, lit ''HTTP 500'', Some 500)]"
    by (simp add: change_of_def cfg_aa_def env_500_then_200_def env_500_def check_website_def
          str_int_500 lit_def)
  have c1: "change_of cfg_aa env_500_then_200 [] (Suc 0) a_test = []"
    by (simp add: change_of_def cfg_aa_def env_500_then_200_def env_500_def check_website_def)
  obtain w2 where 1: "detect cfg_aa env_500_then_200 world0
       = Inr (final_state cfg_aa env_500_then_200 (length (gets world0)) (WEBSITES cfg_aa) [],
              changes_from cfg_aa env_500_then_200 [] (length (gets world0)) (WEBSITES cfg_aa), w2)"
    using detect_result [OF load_world0, of cfg_aa env_500_then_200] by blast
  show ?thesis
    using 1 by (simp add: websites_cfg_aa world0_fields c0 c1)
qed

text \<open>
  C5. Round trip. After a run that returned and whose write of the state file succeeded,
  \<open>load_state\<close> returns the dictionary with the keys and booleans of the map the loop built:
  its keys are the configured targets, each once, and the value of a target is its
  classification at its last listing.
\<close>

theorem saved_state_reads_back:
  assumes "main cfg env w = Inr w'" and "file_write env = WriteOk"
  shows "\<exists>current_state status_changed w2.
      detect cfg env w = Inr (current_state, status_changed, w2)
    \<and> fst (load_state w') = PDict (map (\<lambda>(k, b). (k, PBool b)) current_state)
    \<and> fst ` set current_state = set (WEBSITES cfg)
    \<and> distinct (map fst current_state)
    \<and> (\<forall>i < length (WEBSITES cfg).
          (\<forall>j < length (WEBSITES cfg). i < j \<longrightarrow> WEBSITES cfg ! j \<noteq> WEBSITES cfg ! i)
          \<longrightarrow> map_of current_state (WEBSITES cfg ! i)
                = Some (checked_up cfg env (length (gets w) + i) (WEBSITES cfg ! i)))"
proof -
  define cur where "cur = final_state cfg env (length (gets w)) (WEBSITES cfg) []"
  obtain chg w2 where 1: "detect cfg env w = Inr (cur, chg, w2)"
    and f: "state_file w' = file_after env cur (state_file w)"
    using main_Inr_result [OF assms(1)] unfolding cur_def by blast
  have "state_file w' = Holds (json_of_state cur)"
    using f assms(2) by (simp add: file_after_WriteOk)
  then have "fst (load_state w') = json_of_state cur"
    by (rule load_state_Holds)
  then have 2: "fst (load_state w') = PDict (map (\<lambda>(k, b). (k, PBool b)) cur)"
    by (simp add: json_of_state_def)
  have 3: "fst ` set cur = set (WEBSITES cfg)"
    by (simp add: cur_def keys_final_state)
  have 4: "distinct (map fst cur)"
    unfolding cur_def by (rule distinct_final_state) simp
  have 5: "\<forall>i < length (WEBSITES cfg).
          (\<forall>j < length (WEBSITES cfg). i < j \<longrightarrow> WEBSITES cfg ! j \<noteq> WEBSITES cfg ! i)
          \<longrightarrow> map_of cur (WEBSITES cfg ! i)
                = Some (checked_up cfg env (length (gets w) + i) (WEBSITES cfg ! i))"
    unfolding cur_def using map_of_final_state_last by blast
  show ?thesis
    apply (rule exI [of _ cur], rule exI [of _ chg], rule exI [of _ w2])
    using 1 2 3 4 5 by blast
qed

theorem saved_state_reads_back_witness:
  "file_write env_500 = WriteOk
   \<and> (\<exists>w'. main cfg_a env_500 world0 = Inr w'
          \<and> fst (load_state w') = PDict [(a_test, PBool False)])"
proof -
  have h2: "file_write env_500 = WriteOk" by (simp add: env_500_def)
  obtain w' where h1: "main cfg_a env_500 world0 = Inr w'"
    using main_result [OF load_world0, of cfg_a env_500] by blast
  obtain cur chg w2 where
    dr: "detect cfg_a env_500 world0 = Inr (cur, chg, w2)"
    and l: "fst (load_state w') = PDict (map (\<lambda>(k, b). (k, PBool b)) cur)"
  proof -
    from saved_state_reads_back [OF h1 h2]
    show thesis by (elim exE conjE) (rule that; assumption)
  qed
  have "\<exists>w2. detect cfg_a env_500 world0 = Inr ([(a_test, False)], [(a_test, False, lit ''HTTP 500'', Some 500)], w2)"
    using detect_result [OF load_world0, of cfg_a env_500]
    by (auto simp add: checked_up_cfg_a_500 websites_cfg_a change_of_def check_cfg_a_500)
  then have "cur = [(a_test, False)]" using dr by auto
  then have "fst (load_state w') = PDict [(a_test, PBool False)]"
    using l by simp
  then show ?thesis using h1 h2 by blast
qed

text \<open>
  C7. The map given to \<open>save_state\<close> has exactly the configured targets as keys, whatever the
  state file held before, and after a successful write the file holds the JSON object of that
  map alone, with exactly those keys: the previous entries are not merged in.
\<close>

theorem saved_keys_are_the_configured_targets:
  assumes "main cfg env w = Inr w'"
  shows "\<exists>state. saved w' = saved w @ [state]
     \<and> fst ` set state = set (WEBSITES cfg)
     \<and> (file_write env = WriteOk
          \<longrightarrow> (\<exists>kvs. state_file w' = Holds (PDict kvs)
                 \<and> kvs = map (\<lambda>(k, b). (k, PBool b)) state
                 \<and> fst ` set kvs = set (WEBSITES cfg)))"
proof -
  define cur where "cur = final_state cfg env (length (gets w)) (WEBSITES cfg) []"
  have 2: "saved w' = saved w @ [cur]"
    and f: "state_file w' = file_after env cur (state_file w)"
    using main_Inr_result [OF assms] unfolding cur_def by blast+
  have 3: "fst ` set cur = set (WEBSITES cfg)"
    by (simp add: cur_def keys_final_state)
  have k: "fst ` set (map (\<lambda>(k, b). (k, PBool b)) cur) = fst ` set cur"
    by (force simp add: image_iff)
  have 4: "file_write env = WriteOk
          \<longrightarrow> (\<exists>kvs. state_file w' = Holds (PDict kvs)
                 \<and> kvs = map (\<lambda>(k, b). (k, PBool b)) cur
                 \<and> fst ` set kvs = set (WEBSITES cfg))"
    using f 3 k by (simp add: file_after_WriteOk json_of_state_def)
  show ?thesis
    apply (rule exI [of _ cur])
    using 2 3 4 by blast
qed

text \<open>
  The file holds an entry for \<open>b\<close>, which is no longer configured; after the run it holds an
  object with the key \<open>a\<close> only.
\<close>

theorem saved_keys_are_the_configured_targets_witness:
  "\<exists>w' kvs. main cfg_a env_500 world_b_down = Inr w'
      \<and> state_file w' = Holds (PDict kvs) \<and> fst ` set kvs = {a_test}"
proof -
  have l: "fst (load_state world_b_down) = PDict [(b_test, PBool False)]"
    by (simp add: world_b_down_def world0_def load_state_def)
  obtain w' where h: "main cfg_a env_500 world_b_down = Inr w'"
    using main_result [OF l, of cfg_a env_500] by blast
  have "file_write env_500 = WriteOk" by (simp add: env_500_def)
  then show ?thesis
    using saved_keys_are_the_configured_targets [OF h] h
    by (auto simp add: websites_cfg_a)
qed

text \<open>
  C10. Two runs that start from any two loaded dictionaries and classify every entry of the
  configured list alike call \<open>save_state\<close> with the same map, and leave the same state file when
  both writes succeed.
\<close>

theorem saved_state_independent_of_previous_state:
  assumes "is_dict (fst (load_state w1))" and "is_dict (fst (load_state w2))"
    and "\<forall>i < length (WEBSITES cfg).
           checked_up cfg env1 (length (gets w1) + i) (WEBSITES cfg ! i)
             = checked_up cfg env2 (length (gets w2) + i) (WEBSITES cfg ! i)"
  shows "\<exists>state w1' w2'.
       main cfg env1 w1 = Inr w1' \<and> main cfg env2 w2 = Inr w2'
     \<and> saved w1' = saved w1 @ [state] \<and> saved w2' = saved w2 @ [state]
     \<and> (file_write env1 = WriteOk \<and> file_write env2 = WriteOk
          \<longrightarrow> state_file w1' = Holds (json_of_state state)
              \<and> state_file w2' = Holds (json_of_state state))"
proof -
  obtain d1 where d1: "fst (load_state w1) = PDict d1"
    using assms(1) is_dict_PDict by blast
  obtain d2 where d2: "fst (load_state w2) = PDict d2"
    using assms(2) is_dict_PDict by blast
  define cur where "cur = final_state cfg env1 (length (gets w1)) (WEBSITES cfg) []"
  have same: "final_state cfg env2 (length (gets w2)) (WEBSITES cfg) [] = cur"
    unfolding cur_def using assms(3) by (rule final_state_cong [symmetric])
  obtain w1' where a: "main cfg env1 w1 = Inr w1'"
    and sa: "saved w1' = saved w1 @ [cur]"
    and fa: "state_file w1' = file_after env1 cur (state_file w1)"
    using main_result [OF d1, of cfg env1] unfolding cur_def by blast
  obtain w2' where b: "main cfg env2 w2 = Inr w2'"
    and sb: "saved w2' = saved w2 @ [cur]"
    and fb: "state_file w2' = file_after env2 cur (state_file w2)"
    using main_result [OF d2, of cfg env2] unfolding same by blast
  have f: "file_write env1 = WriteOk \<and> file_write env2 = WriteOk
          \<longrightarrow> state_file w1' = Holds (json_of_state cur)
              \<and> state_file w2' = Holds (json_of_state cur)"
    using fa fb by (simp add: file_after_WriteOk)
  show ?thesis
    apply (rule exI [of _ cur], rule exI [of _ w1'], rule exI [of _ w2'])
    using a b sa sb f by blast
qed

theorem saved_state_independent_of_previous_state_witness:
  "is_dict (fst (load_state world0)) \<and> is_dict (fst (load_state world_a_up))
   \<and> (\<exists>state w1' w2'.
         main cfg_a env_500 world0 = Inr w1' \<and> main cfg_a env_500 world_a_up = Inr w2'
       \<and> saved w1' = [state] \<and> saved w2' = [state]
       \<and> state_file w1' = Holds (json_of_state state)
       \<and> state_file w2' = Holds (json_of_state state))"
proof -
  have h1: "is_dict (fst (load_state world0))" by (simp add: load_world0)
  have h2: "is_dict (fst (load_state world_a_up))" by (simp add: load_world_a_up)
  have h3: "\<forall>i < length (WEBSITES cfg_a).
           checked_up cfg_a env_500 (length (gets world0) + i) (WEBSITES cfg_a ! i)
             = checked_up cfg_a env_500 (length (gets world_a_up) + i) (WEBSITES cfg_a ! i)"
    by (simp add: websites_cfg_a checked_up_cfg_a_500)
  show ?thesis
    using saved_state_independent_of_previous_state [OF h1 h2 h3] h1 h2
    by (simp add: world0_fields world_a_up_fields env_500_def)
qed

text \<open>
  C6, as the code has it. From every initial state file, if a first run completes with a
  successful write of the state file, a second run classifies every entry of the configured
  list as the first did, and a URL listed more than once is classified alike at each of its
  listings, the second run enqueues no change record and posts no message.
\<close>

theorem second_run_is_silent:
  assumes "main cfg env1 w = Inr w1" and "file_write env1 = WriteOk"
    and "\<forall>i < length (WEBSITES cfg).
           checked_up cfg env2 (length (gets w1) + i) (WEBSITES cfg ! i)
             = checked_up cfg env1 (length (gets w) + i) (WEBSITES cfg ! i)"
    and "\<forall>i < length (WEBSITES cfg). \<forall>j < length (WEBSITES cfg).
           WEBSITES cfg ! i = WEBSITES cfg ! j
           \<longrightarrow> checked_up cfg env1 (length (gets w) + i) (WEBSITES cfg ! i)
                 = checked_up cfg env1 (length (gets w) + j) (WEBSITES cfg ! j)"
  shows "\<exists>current_state w2 w'.
       detect cfg env2 w1 = Inr (current_state, [], w2)
     \<and> main cfg env2 w1 = Inr w' \<and> posts w' = posts w1"
proof -
  define ws where "ws = WEBSITES cfg"
  define k1 where "k1 = length (gets w)"
  define k2 where "k2 = length (gets w1)"
  define cur1 where "cur1 = final_state cfg env1 k1 ws []"
  have "state_file w1 = file_after env1 cur1 (state_file w)"
    using main_Inr_result [OF assms(1)] unfolding cur1_def k1_def ws_def by blast
  then have file1: "state_file w1 = Holds (json_of_state cur1)"
    using assms(2) by (simp add: file_after_WriteOk)
  define d2 where "d2 = map (\<lambda>(k, b). (k, PBool b)) cur1"
  have prev2: "fst (load_state w1) = PDict d2"
    using file1 by (simp add: load_state_Holds json_of_state_def d2_def)
  have stored_value: "map_of d2 (ws ! i) = Some (PBool (checked_up cfg env2 (k2 + i) (ws ! i)))"
    if i: "i < length ws" for i
  proof -
    obtain j where j: "j < length ws" and same: "ws ! j = ws ! i"
      and last: "\<forall>j' < length ws. j < j' \<longrightarrow> ws ! j' \<noteq> ws ! j"
      using last_listing [OF i] by blast
    have "map_of cur1 (ws ! j) = Some (checked_up cfg env1 (k1 + j) (ws ! j))"
      unfolding cur1_def using j last by (rule map_of_final_state_last)
    moreover have "checked_up cfg env1 (k1 + j) (ws ! j) = checked_up cfg env1 (k1 + i) (ws ! i)"
      using assms(4) i j same unfolding ws_def k1_def by metis
    moreover have "checked_up cfg env1 (k1 + i) (ws ! i) = checked_up cfg env2 (k2 + i) (ws ! i)"
      using assms(3) i unfolding ws_def k1_def k2_def by simp
    ultimately have "map_of cur1 (ws ! i) = Some (checked_up cfg env2 (k2 + i) (ws ! i))"
      using same by simp
    then show ?thesis
      unfolding d2_def by (simp add: map_of_json_of_state)
  qed
  have none: "changes_from cfg env2 d2 (length (gets w1)) (WEBSITES cfg) = []"
    unfolding k2_def [symmetric] ws_def [symmetric]
    by (rule changes_from_unchanged) (simp add: stored_value)
  obtain w2 where 1: "detect cfg env2 w1
      = Inr (final_state cfg env2 (length (gets w1)) (WEBSITES cfg) [], [], w2)"
    using detect_result [OF prev2, of cfg env2] unfolding none by blast
  obtain w' where 2: "main cfg env2 w1 = Inr w'" and 3: "posts w' = posts w1"
    using main_result [OF prev2, of cfg env2] unfolding none
    by (auto simp add: notifications_def)
  from 1 2 3 show ?thesis by blast
qed

theorem second_run_is_silent_witness:
  "file_write env_500 = WriteOk
   \<and> (\<exists>w1. main cfg_a env_500 world0 = Inr w1
         \<and> (\<exists>current_state w2 w'.
               detect cfg_a env_500 w1 = Inr (current_state, [], w2)
             \<and> main cfg_a env_500 w1 = Inr w' \<and> posts w' = posts w1))"
proof -
  have h2: "file_write env_500 = WriteOk" by (simp add: env_500_def)
  obtain w1 where h1: "main cfg_a env_500 world0 = Inr w1"
    using main_result [OF load_world0, of cfg_a env_500] by blast
  have h3: "\<forall>i < length (WEBSITES cfg_a).
           checked_up cfg_a env_500 (length (gets w1) + i) (WEBSITES cfg_a ! i)
             = checked_up cfg_a env_500 (length (gets world0) + i) (WEBSITES cfg_a ! i)"
    by (simp add: websites_cfg_a checked_up_cfg_a_500)
  have h4: "\<forall>i < length (WEBSITES cfg_a). \<forall>j < length (WEBSITES cfg_a).
           WEBSITES cfg_a ! i = WEBSITES cfg_a ! j
           \<longrightarrow> checked_up cfg_a env_500 (length (gets world0) + i) (WEBSITES cfg_a ! i)
                 = checked_up cfg_a env_500 (length (gets world0) + j) (WEBSITES cfg_a ! j)"
    by (simp add: websites_cfg_a)
  show ?thesis
    using second_run_is_silent [OF h1 h2 h3 h4] h1 h2 by blast
qed

text \<open>
  Two runs in a row with the same check outcomes whose second is not silent. First: the
  state file cannot be opened for writing, \<open>save_state\<close> logs the error and the file stays
  absent, so the second run finds the target down against the default \<open>True\<close> again. Second:
  the URL is listed twice and answered 200, then 500, in both runs; the first run saves
  \<open>{a: false}\<close>, and the first pass of the second run finds \<open>a\<close> up.
\<close>

theorem second_run_not_silent_counterexample:
  "map_sum id fst (run_twice cfg_a env_500_read_only env_500_read_only world0)
     = Inr [(a_test, False, lit ''HTTP 500'', Some 500)]
   \<and> map_sum id (posts \<circ> snd) (run_twice cfg_a env_500_read_only env_500_read_only world0)
     = Inr [message_a_down, summary_a_down, message_a_down, summary_a_down]
   \<and> file_write env_200_then_500 = WriteOk
   \<and> map_sum id fst (run_twice cfg_aa env_200_then_500 env_200_then_500 world0)
     = Inr [(a_test, True, lit ''OK'', Some 200)]"
proof -
  define env where "env = env_500_read_only"
  have env: "env = env_500\<lparr>file_write := OpenRaises (OtherException (lit ''Read-only file system''))\<rparr>"
    by (simp add: env_def env_500_read_only_def)
  have chk: "check_website (TIMEOUT_SECONDS cfg_a) (http_get env k a_test)
     = Inr (False, lit ''HTTP 500'', Some 500)" for k
    by (simp add: cfg_a_def env env_500_def check_website_def str_int_500 lit_def)
  have ch: "change_of cfg_a env [] k a_test = [(a_test, False, lit ''HTTP 500'', Some 500)]" for k
    by (simp add: change_of_def chk)
  have up: "checked_up cfg_a env k a_test = False" for k
    by (simp add: checked_up_def chk)
  have msgs: "notifications cfg_a env k [(a_test, False)] [(a_test, False, lit ''HTTP 500'', Some 500)]
      = [message_a_down, summary_a_down]" for k
    by (simp add: notifications_def cfg_a_def env env_500_def message_a_down_def summary_a_down_def)
  have keep: "file_after env state old = old" for state old
    by (simp add: file_after_def env)
  obtain w1 where m1: "main cfg_a env world0 = Inr w1"
    and p1: "posts w1 = [message_a_down, summary_a_down]"
    and f1: "state_file w1 = Missing"
    using main_result [OF load_world0, of cfg_a env]
    by (auto simp add: websites_cfg_a ch up msgs keep world0_fields)
  have l1: "fst (load_state w1) = PDict []"
    using f1 by (simp add: load_state_def)
  obtain w2 where d2: "detect cfg_a env w1
      = Inr ([(a_test, False)], [(a_test, False, lit ''HTTP 500'', Some 500)], w2)"
    using detect_result [OF l1, of cfg_a env]
    by (auto simp add: websites_cfg_a ch up)
  obtain w' where m2: "main cfg_a env w1 = Inr w'"
    and p2: "posts w' = [message_a_down, summary_a_down, message_a_down, summary_a_down]"
    using main_result [OF l1, of cfg_a env]
    by (auto simp add: websites_cfg_a ch up msgs p1)
  have "run_twice cfg_a env env world0 = Inr ([(a_test, False, lit ''HTTP 500'', Some 500)], w')"
    using m1 d2 m2 by (simp add: run_twice_def)
  then have A: "map_sum id fst (run_twice cfg_a env_500_read_only env_500_read_only world0)
     = Inr [(a_test, False, lit ''HTTP 500'', Some 500)]
   \<and> map_sum id (posts \<circ> snd) (run_twice cfg_a env_500_read_only env_500_read_only world0)
     = Inr [message_a_down, summary_a_down, message_a_down, summary_a_down]"
    using p2 by (simp add: env_def)

  define flap where "flap = env_200_then_500"
  have flap: "flap = env_500\<lparr>http_get := (\<lambda>k url. if even k then Inr 200 else Inr 500)\<rparr>"
    by (simp add: flap_def env_200_then_500_def)
  have wr: "file_write flap = WriteOk"
    by (simp add: flap env_500_def)
  have c_even: "check_website (TIMEOUT_SECONDS cfg_aa) (http_get flap k a_test)
      = Inr (True, lit ''OK'', Some 200)" if "even k" for k
    using that by (simp add: flap check_website_def)
  have c_odd: "check_website (TIMEOUT_SECONDS cfg_aa) (http_get flap k a_test)
      = Inr (False, lit ''HTTP 500'', Some 500)" if "odd k" for k
    using that by (simp add: flap check_website_def str_int_500 lit_def)
  have up_even: "checked_up cfg_aa flap k a_test = True" if "even k" for k
    using that by (simp add: checked_up_def c_even)
  have up_odd: "checked_up cfg_aa flap k a_test = False" if "odd k" for k
    using that by (simp add: checked_up_def c_odd)
  have fs0: "final_state cfg_aa flap 0 [a_test, a_test] [] = [(a_test, False)]"
    by (simp add: up_even up_odd)
  have fs2: "final_state cfg_aa flap 2 [a_test, a_test] [] = [(a_test, False)]"
    by (simp add: up_even up_odd)
  obtain v1 where n1: "main cfg_aa flap world0 = Inr v1"
    and g1: "gets v1 = [a_test, a_test]"
    and s1: "state_file v1 = file_after flap (final_state cfg_aa flap 0 [a_test, a_test] []) Missing"
    using main_result [OF load_world0, of cfg_aa flap]
    unfolding websites_cfg_aa world0_fields by auto
  have "state_file v1 = Holds (PDict [(a_test, PBool False)])"
    unfolding s1 fs0 by (simp add: file_after_WriteOk wr json_of_state_def)
  then have lv: "fst (load_state v1) = PDict [(a_test, PBool False)]"
    by (rule load_state_Holds)
  have e2: "changes_from cfg_aa flap [(a_test, PBool False)] 2 [a_test, a_test]
      = [(a_test, True, lit ''OK'', Some 200)]"
    by (simp add: change_of_def c_even c_odd)
  have len: "length (gets v1) = 2"
    by (simp add: g1)
  obtain v2 where dv: "detect cfg_aa flap v1
      = Inr ([(a_test, False)], [(a_test, True, lit ''OK'', Some 200)], v2)"
    using detect_result [OF lv, of cfg_aa flap]
    unfolding websites_cfg_aa len e2 fs2 by blast
  obtain v' where n2: "main cfg_aa flap v1 = Inr v'"
    using main_result [OF lv, of cfg_aa flap] by blast
  have "run_twice cfg_aa flap flap world0 = Inr ([(a_test, True, lit ''OK'', Some 200)], v')"
    using n1 dv n2 by (simp add: run_twice_def)
  then have B: "map_sum id fst (run_twice cfg_aa env_200_then_500 env_200_then_500 world0)
     = Inr [(a_test, True, lit ''OK'', Some 200)]"
    by (simp add: flap_def)
  from A wr B show ?thesis by (simp add: flap_def)
qed

end
